theory Spec2Isabelle
  imports Complex_Main "HOL-Library.Word" "HOL-Library.Signed_Division"
begin

section \<open>Errors raised by the library\<close>

text \<open>
  Every \<open>throw\<close> and failed \<open>assert\<close> of the modelled functions is a value of
  \<open>error\<close>; a function that can throw returns \<open>error + 'a\<close> with \<open>Inl\<close> for the
  exception. Messages that interpolate data carry that data as arguments.
\<close>

datatype length_msg =
    WrongLength nat nat
      \<comment> \<open>\<open>Spdz proxy i provided n bytes, expected multiple of w.\<close> (index, byte count)\<close>
  | WrongTripleLength nat nat
      \<comment> \<open>\<open>Spdz proxy i provided triple with n bytes, must be a multiple of 48.\<close>\<close>
  | NotSameLength
      \<comment> \<open>\<open>Shares from each proxy are expected to be the same byte length.\<close>\<close>

datatype error =
    FieldSizeError int
      \<comment> \<open>\<open>Got a Gfp integer v which exceeds the field size 0 to prime.\<close>\<close>
  | UserRangeError int
      \<comment> \<open>\<open>Got an integer v which exceeds the field size -prime/2 to prime/2.\<close>\<close>
  | OverflowError int
      \<comment> \<open>\<open>Overflow converting Gfp v to JS Integer.\<close>\<close>
  | InvalidInteger string
      \<comment> \<open>big-integer rejects a digit string\<close>
  | NotCoPrime
      \<comment> \<open>big-integer's \<open>modInv\<close> on arguments that are not co-prime\<close>
  | NoData
      \<comment> \<open>\<open>No data to extract.\<close>\<close>
  | BufferLengthError "length_msg list"
      \<comment> \<open>the non-empty messages of \<open>checkBuffer\<close> / \<open>checkBufferLength\<close>, joined by newlines\<close>
  | PartiesDisagree
      \<comment> \<open>\<open>Not all parties have sent the same result.\<close>\<close>
  | RequiresArray
      \<comment> \<open>\<open>binaryToShare requires an Array as input.\<close>\<close>
  | RequiresUint8Array
      \<comment> \<open>\<open>binaryToShare requires an Array of Uint8Array buffers.\<close>\<close>
  | TripleCheckFailed
      \<comment> \<open>\<open>Triple to be used for a share failed check.\<close>\<close>
  | TypeError
      \<comment> \<open>the JavaScript runtime's TypeError (reduce of an empty array with no initial value)\<close>
  | AssertionError
      \<comment> \<open>a failed \<open>assert(...)\<close>\<close>
  | MustBeNumbers
      \<comment> \<open>\<open>User input values [...] must be numbers.\<close>\<close>
  | AuthenticationFailed
      \<comment> \<open>\<open>Authentication/decryption failed.\<close>\<close>

type_synonym byte = "8 word"

section \<open>The big-integer library, as far as Gfp uses it\<close>

text \<open>
  \<open>Gfp.js\<close> wraps values of the npm package big-integer: unbounded integers, here
  \<open>int\<close>. Its \<open>divide\<close> truncates towards zero and its \<open>mod\<close> takes the sign of the
  dividend (\<open>sdiv\<close> and \<open>smod\<close>); \<open>modInv\<close> is the extended Euclidean loop;
  \<open>toString(16)\<close> prints lower-case digits without leading zeros and \<open>bigInt(text, 16)\<close>
  reads them back.
\<close>

definition hex_digit :: "nat \<Rightarrow> char" where
  "hex_digit d = ''0123456789abcdef'' ! d"

fun toString16_nat :: "nat \<Rightarrow> string" where
  "toString16_nat n =
     (if n < 16 then [hex_digit n] else toString16_nat (n div 16) @ [hex_digit (n mod 16)])"

declare toString16_nat.simps [simp del]

definition toString16 :: "int \<Rightarrow> string" where
  "toString16 v = (if v < 0 then CHR ''-'' # toString16_nat (nat (- v)) else toString16_nat (nat v))"

definition hex_value :: "char \<Rightarrow> nat option" where
  "hex_value c =
     (if c \<in> set ''0123456789'' then Some (of_char c - 48)
      else if c \<in> set ''abcdef'' then Some (of_char c - 87)
      else if c \<in> set ''ABCDEF'' then Some (of_char c - 55)
      else None)"

fun parse_digits :: "nat \<Rightarrow> string \<Rightarrow> nat option" where
  "parse_digits acc [] = Some acc"
| "parse_digits acc (c # cs) =
     (case hex_value c of None \<Rightarrow> None | Some d \<Rightarrow> parse_digits (16 * acc + d) cs)"

definition bigInt16 :: "string \<Rightarrow> error + int" where
  "bigInt16 text =
     (if text \<noteq> [] \<and> hd text = CHR ''-''
      then (case parse_digits 0 (tl text) of
              None \<Rightarrow> Inl (InvalidInteger text) | Some n \<Rightarrow> Inr (- int n))
      else (case parse_digits 0 text of
              None \<Rightarrow> Inl (InvalidInteger text) | Some n \<Rightarrow> Inr (int n)))"

function modInv_loop :: "int \<Rightarrow> int \<Rightarrow> int \<Rightarrow> int \<Rightarrow> int \<times> int" where
  "modInv_loop t newT r newR =
     (if newR = 0 then (t, r)
      else modInv_loop newT (t - (r sdiv newR) * newT) newR (r - (r sdiv newR) * newR))"
  by pat_completeness auto
termination
proof (relation "measure (\<lambda>(t, newT, r, newR). nat \<bar>newR\<bar>)")
  show "wf (measure (\<lambda>(t, newT, r, newR). nat \<bar>newR\<bar>))"
    by simp
next
  fix t newT r newR :: int
  assume "newR \<noteq> 0"
  then have "\<bar>r smod newR\<bar> < \<bar>newR\<bar>"
    using smod_int_range [of newR r] by auto
  then show "((newT, t - r sdiv newR * newT, newR, r - r sdiv newR * newR), t, newT, r, newR)
      \<in> measure (\<lambda>(t, newT, r, newR). nat \<bar>newR\<bar>)"
    by (simp add: minus_sdiv_mult_eq_smod)
qed

declare modInv_loop.simps [simp del]

definition modInv :: "int \<Rightarrow> int \<Rightarrow> error + int" where
  "modInv this n =
     (case modInv_loop 0 1 n \<bar>this\<bar> of
        (t, r) \<Rightarrow>
          if r \<noteq> 1 then Inl NotCoPrime
          else let t' = (if t < 0 then t + n else t)
               in Inr (if this < 0 then - t' else t'))"

section \<open>Gfp: field elements in Montgomery form\<close>

definition INTEGER_LENGTH_BYTES :: nat where
  "INTEGER_LENGTH_BYTES = 16"

definition GFP_PRIME :: int where
  "GFP_PRIME = 172035116406933162231178957667602464769"

definition GFP_NEGATIVE_BOUNDARY :: int where
  "GFP_NEGATIVE_BOUNDARY = GFP_PRIME sdiv 2"

definition MIN_NEGATIVE :: int where
  "MIN_NEGATIVE = GFP_NEGATIVE_BOUNDARY - GFP_PRIME"

definition R :: int where
  "R = 2 ^ (INTEGER_LENGTH_BYTES * 8)"

definition R_INVERSE :: int where
  "R_INVERSE = (case modInv R GFP_PRIME of Inr t \<Rightarrow> t | Inl e \<Rightarrow> 0)"

definition MAX_SAFE_INTEGER :: int where
  "MAX_SAFE_INTEGER = 2 ^ 53 - 1"

definition MIN_SAFE_INTEGER :: int where
  "MIN_SAFE_INTEGER = - (2 ^ 53 - 1)"

definition toMontgomery :: "int \<Rightarrow> int" where
  "toMontgomery v = (v * R) smod GFP_PRIME"

definition fromMontgomery :: "int \<Rightarrow> int" where
  "fromMontgomery v = (v * R_INVERSE) smod GFP_PRIME"

definition fromGfpMapping :: "int \<Rightarrow> int" where
  "fromGfpMapping bigIntGfp =
     (if bigIntGfp \<ge> GFP_NEGATIVE_BOUNDARY then bigIntGfp - GFP_PRIME else bigIntGfp)"

datatype Gfp = Gfp (val: int)

text \<open>
  The constructor \<open>new Gfp(value, isMapped)\<close>. The \<open>instanceof\<close> test on \<open>value\<close> is
  settled by the type \<open>int\<close>.
\<close>

definition new_Gfp :: "int \<Rightarrow> bool \<Rightarrow> error + Gfp" where
  "new_Gfp v isMapped =
     (if isMapped
      then (if v < 0 \<or> v > GFP_PRIME then Inl (FieldSizeError v) else Inr (Gfp v))
      else (if v < MIN_NEGATIVE \<or> v \<ge> GFP_NEGATIVE_BOUNDARY then Inl (UserRangeError v)
            else Inr (Gfp (toMontgomery (if v < 0 then v + GFP_PRIME else v)))))"

definition Gfp_add :: "Gfp \<Rightarrow> Gfp \<Rightarrow> error + Gfp" where
  "Gfp_add this other = new_Gfp ((val this + val other) smod GFP_PRIME) True"

definition Gfp_multiply :: "Gfp \<Rightarrow> Gfp \<Rightarrow> error + Gfp" where
  "Gfp_multiply this other = new_Gfp ((val this * val other * R_INVERSE) smod GFP_PRIME) True"

definition Gfp_equals :: "Gfp \<Rightarrow> Gfp \<Rightarrow> bool" where
  "Gfp_equals this other = (val this = val other)"

definition toNativeHexString :: "Gfp \<Rightarrow> string" where
  "toNativeHexString this = toString16 (val this)"

definition toJSInteger :: "Gfp \<Rightarrow> error + int" where
  "toJSInteger this =
     (let bigintVal = fromGfpMapping (fromMontgomery (val this))
      in if bigintVal \<ge> MIN_SAFE_INTEGER \<and> bigintVal \<le> MAX_SAFE_INTEGER
         then Inr bigintVal else Inl (OverflowError bigintVal))"

text \<open>
  \<open>Gfp.fromUserInput\<close> takes the decimal text of an integer (or a number, printed
  first); the model takes the integer that text denotes. \<open>Gfp.fromSpdz\<close> takes hex text.
\<close>

definition fromUserInput :: "int \<Rightarrow> error + Gfp" where
  "fromUserInput v = new_Gfp v False"

definition fromSpdz :: "string \<Rightarrow> error + Gfp" where
  "fromSpdz hexString =
     (case bigInt16 hexString of Inl e \<Rightarrow> Inl e | Inr v \<Rightarrow> new_Gfp v True)"

text \<open>The Gfp instances a program can get hold of: the two factories and the two operations.\<close>

inductive produced :: "Gfp \<Rightarrow> bool" where
  from_user: "fromUserInput v = Inr g \<Longrightarrow> produced g"
| from_wire: "fromSpdz hexString = Inr g \<Longrightarrow> produced g"
| by_add: "produced x \<Longrightarrow> produced y \<Longrightarrow> Gfp_add x y = Inr g \<Longrightarrow> produced g"
| by_multiply: "produced x \<Longrightarrow> produced y \<Longrightarrow> Gfp_multiply x y = Inr g \<Longrightarrow> produced g"

section \<open>Sequencing calls that can throw\<close>

definition andThen :: "error + 'a \<Rightarrow> ('a \<Rightarrow> error + 'b) \<Rightarrow> error + 'b" where
  "andThen r f = (case r of Inl e \<Rightarrow> Inl e | Inr x \<Rightarrow> f x)"

text \<open>\<open>Array.prototype.map\<close> with a callback that can throw: the first throw ends the call.\<close>

fun mapE :: "('a \<Rightarrow> error + 'b) \<Rightarrow> 'a list \<Rightarrow> error + 'b list" where
  "mapE f [] = Inr []"
| "mapE f (x # xs) =
     (case f x of
        Inl e \<Rightarrow> Inl e
      | Inr y \<Rightarrow> (case mapE f xs of Inl e \<Rightarrow> Inl e | Inr ys \<Rightarrow> Inr (y # ys)))"

text \<open>\<open>Array.prototype.reduce\<close> with an initial value and a callback that can throw.\<close>

fun reduceE :: "('b \<Rightarrow> 'a \<Rightarrow> error + 'b) \<Rightarrow> 'b \<Rightarrow> 'a list \<Rightarrow> error + 'b" where
  "reduceE f acc [] = Inr acc"
| "reduceE f acc (x # xs) =
     (case f acc x of Inl e \<Rightarrow> Inl e | Inr acc' \<Rightarrow> reduceE f acc' xs)"

section \<open>utility/binary.js\<close>

definition padHex :: "string \<Rightarrow> string" where
  "padHex hex = (if length hex mod 2 \<noteq> 0 then CHR ''0'' # hex else hex)"

definition binaryToHex :: "byte list \<Rightarrow> string" where
  "binaryToHex binaryArray =
     foldl (\<lambda>hexString i. hexString @ padHex (toString16_nat (unat i))) [] binaryArray"

section \<open>type_mapping/binaryToArray.js\<close>

text \<open>
  The buffers are \<open>Uint8Array\<close>s, here lists of bytes, so the type messages of
  \<open>checkBuffer\<close> are all empty. JavaScript's \<open>n % 0\<close> is \<open>NaN\<close>, which is not \<open>0\<close>.
\<close>

definition checkBuffer :: "nat \<Rightarrow> byte list list \<Rightarrow> length_msg list" where
  "checkBuffer intSize byteBufferList =
     List.map_filter
       (\<lambda>(index, byteBuffer).
          if intSize \<noteq> 0 \<and> length byteBuffer mod intSize = 0 then None
          else Some (WrongLength index (length byteBuffer)))
       (enumerate 0 byteBufferList)"

text \<open>
  The \<open>for\<close> loop of \<open>allSame\<close> over two arrays of one length; \<open>eq\<close> is
  \<open>equals\<close> for Gfp elements and \<open>===\<close> for the others.
\<close>

fun sameElements :: "('a \<Rightarrow> 'a \<Rightarrow> bool) \<Rightarrow> 'a list \<Rightarrow> 'a list \<Rightarrow> bool" where
  "sameElements eq (x # xs) (y # ys) = (if \<not> eq x y then False else sameElements eq xs ys)"
| "sameElements eq xs ys = True"

text \<open>
  The callback of the \<open>reduce\<close> in \<open>allSame\<close>. The accumulator is an array or \<open>NaN\<close>
  (\<open>None\<close>); \<open>NaN.length\<close> is \<open>undefined\<close> and a length of \<open>0\<close> is falsy as well.
\<close>

definition allSame_step :: "('a \<Rightarrow> 'a \<Rightarrow> bool) \<Rightarrow> 'a list option \<Rightarrow> 'a list \<Rightarrow> 'a list option" where
  "allSame_step eq acc b =
     (case acc of
        None \<Rightarrow> None
      | Some a \<Rightarrow>
          if length a \<noteq> 0 \<and> length b \<noteq> 0 \<and> length a = length b
          then (if sameElements eq a b then Some a else None)
          else None)"

text \<open>\<open>!!\<close> of the reduced value: an array (even an empty one) is truthy, \<open>NaN\<close> is not.\<close>

definition allSame :: "('a \<Rightarrow> 'a \<Rightarrow> bool) \<Rightarrow> 'a list list \<Rightarrow> bool" where
  "allSame eq list =
     (case list of
        [] \<Rightarrow> True
      | first # rest \<Rightarrow> foldl (allSame_step eq) (Some first) rest \<noteq> None)"

definition binaryToArray ::
    "byte list list \<Rightarrow> nat \<Rightarrow> (byte list \<Rightarrow> error + 'a list) \<Rightarrow> ('a \<Rightarrow> 'a \<Rightarrow> bool) \<Rightarrow> error + 'a list" where
  "binaryToArray byteBufferList typeByteLength extractBinaryIntoArray eq =
     (if length byteBufferList = 0 then Inl NoData
      else let chkBufLengthMessage = checkBuffer typeByteLength byteBufferList
           in if length chkBufLengthMessage > 0 then Inl (BufferLengthError chkBufLengthMessage)
              else andThen (mapE extractBinaryIntoArray byteBufferList)
                     (\<lambda>arrayMatrix.
                        if \<not> allSame eq arrayMatrix then Inl PartiesDisagree
                        else Inr (hd arrayMatrix)))"

text \<open>
  \<open>DataView.getUint32(i, true)\<close>: four bytes, least significant first. The view is
  taken over a buffer that the \<open>Uint8Array\<close> spans whole, and \<open>binaryToArray\<close> has
  checked that its length is a multiple of four.
\<close>

definition getUint32 :: "byte \<Rightarrow> byte \<Rightarrow> byte \<Rightarrow> byte \<Rightarrow> nat" where
  "getUint32 b0 b1 b2 b3 = unat b0 + 256 * unat b1 + 65536 * unat b2 + 16777216 * unat b3"

fun extractInt32 :: "byte list \<Rightarrow> nat list" where
  "extractInt32 (b0 # b1 # b2 # b3 # rest) = getUint32 b0 b1 b2 b3 # extractInt32 rest"
| "extractInt32 rest = []"

definition binaryToIntArray :: "byte list list \<Rightarrow> error + nat list" where
  "binaryToIntArray byteBufferList =
     binaryToArray byteBufferList 4 (\<lambda>byteBuffer. Inr (extractInt32 byteBuffer)) (=)"

function extractGfp :: "byte list \<Rightarrow> error + Gfp list" where
  "extractGfp byteBuffer =
     (if length byteBuffer = 0 then Inr []
      else andThen (fromSpdz (binaryToHex (rev (take INTEGER_LENGTH_BYTES byteBuffer))))
             (\<lambda>gfp. andThen (extractGfp (drop INTEGER_LENGTH_BYTES byteBuffer))
                (\<lambda>gfpArray. Inr (gfp # gfpArray))))"
  by pat_completeness auto
termination
  by (relation "measure length") (auto simp: INTEGER_LENGTH_BYTES_def)

declare extractGfp.simps [simp del]

definition binaryToGfpArray :: "byte list list \<Rightarrow> error + Gfp list" where
  "binaryToGfpArray byteBufferList = binaryToArray byteBufferList 16 extractGfp Gfp_equals"

section \<open>type_mapping/binaryToShare.js\<close>

definition TRIPLE_BYTES :: nat where
  "TRIPLE_BYTES = 3 * INTEGER_LENGTH_BYTES"

datatype Triple = Triple (triple_a: Gfp) (triple_b: Gfp) (triple_c: Gfp)

text \<open>
  The constructor reads elements 0, 1 and 2 of the decoded array. With fewer than three
  it would leave a field \<open>undefined\<close>, on which \<open>add\<close> and \<open>multiply\<close> throw a
  TypeError; \<open>binaryToShare\<close> only passes 48-byte slices.
\<close>

definition new_Triple :: "byte list \<Rightarrow> error + Triple" where
  "new_Triple byteBuffer =
     andThen (binaryToGfpArray [byteBuffer])
       (\<lambda>gfpArray. case gfpArray of
                      x # y # z # rest \<Rightarrow> Inr (Triple x y z)
                    | _ \<Rightarrow> Inl TypeError)"

definition Triple_zero :: "error + Triple" where
  "Triple_zero = new_Triple (replicate (3 * INTEGER_LENGTH_BYTES) 0)"

definition checkRelation :: "Triple \<Rightarrow> error + bool" where
  "checkRelation this =
     andThen (Gfp_multiply (triple_a this) (triple_b this))
       (\<lambda>ab. Inr (Gfp_equals ab (triple_c this)))"

definition Triple_add :: "Triple \<Rightarrow> Triple \<Rightarrow> error + Triple" where
  "Triple_add this triple =
     andThen (Gfp_add (triple_a this) (triple_a triple)) (\<lambda>a'.
     andThen (Gfp_add (triple_b this) (triple_b triple)) (\<lambda>b'.
     andThen (Gfp_add (triple_c this) (triple_c triple)) (\<lambda>c'.
     Inr (Triple a' b' c'))))"

text \<open>
  \<open>checkBufferLength\<close>: the \<open>reduce\<close> has no initial value, so it throws a TypeError on
  an empty array; its accumulator is a buffer or \<open>NaN\<close> (\<open>None\<close>), and a buffer is truthy.
\<close>

definition checkBufferLength :: "byte list list \<Rightarrow> error + length_msg list" where
  "checkBufferLength clearValues =
     (let lengthMsgs =
            map (\<lambda>(index, clearValue).
                   if length clearValue > 0 \<and> length clearValue mod TRIPLE_BYTES = 0 then None
                   else Some (WrongTripleLength index (length clearValue)))
                (enumerate 0 clearValues)
      in case clearValues of
           [] \<Rightarrow> Inl TypeError
         | first # rest \<Rightarrow>
             (let sameLengths =
                    (foldl (\<lambda>acc b. case acc of
                                       None \<Rightarrow> None
                                     | Some a \<Rightarrow> if length a = length b then Some a else None)
                       (Some first) rest \<noteq> None)
              in Inr (List.map_filter id
                        (if \<not> sameLengths then lengthMsgs @ [Some NotSameLength] else lengthMsgs))))"

text \<open>What a caller can pass to \<open>binaryToShare\<close>: anything, an array of anything.\<close>

datatype js_element = Uint8Array "byte list" | NotUint8Array

datatype js_argument = Array "js_element list" | NotArray

fun bytes_of :: "js_element \<Rightarrow> byte list" where
  "bytes_of (Uint8Array bs) = bs"
| "bytes_of NotUint8Array = []"

definition slice :: "'a list \<Rightarrow> nat \<Rightarrow> nat \<Rightarrow> 'a list" where
  "slice xs start end = take (end - start) (drop start xs)"

definition combinedTriple :: "byte list list \<Rightarrow> nat \<Rightarrow> error + Triple" where
  "combinedTriple byteBufferList i =
     andThen (mapE (\<lambda>byteBuffer.
                      new_Triple (slice byteBuffer (i * TRIPLE_BYTES) ((i + 1) * TRIPLE_BYTES)))
                byteBufferList)
       (\<lambda>triples. andThen Triple_zero (\<lambda>zero. reduceE Triple_add zero triples))"

definition binaryToShare :: "js_argument \<Rightarrow> error + Gfp list" where
  "binaryToShare arg =
     (case arg of
        NotArray \<Rightarrow> Inl RequiresArray
      | Array elements \<Rightarrow>
          if NotUint8Array \<in> set elements then Inl RequiresUint8Array
          else let byteBufferList = map bytes_of elements
               in andThen (checkBufferLength byteBufferList)
                    (\<lambda>errorMessage.
                       if length errorMessage > 0 then Inl (BufferLengthError errorMessage)
                       else let expectedNum = length (hd byteBufferList) div TRIPLE_BYTES
                            in mapE (\<lambda>i. andThen (combinedTriple byteBufferList i)
                                         (\<lambda>t. andThen (checkRelation t)
                                            (\<lambda>ok. if \<not> ok then Inl TripleCheckFailed
                                                   else Inr (triple_a t))))
                                 [0..<expectedNum]))"

subsection \<open>The share reconstruction as the specification words it\<close>

text \<open>
  The specification's reading of \<open>binaryToShare\<close>, to compare the code with: a
  16-byte group is a little-endian integer, a triple is three groups, triples are summed
  field by field modulo the prime, and a combined triple is verified by the Montgomery
  product of its first two fields.
\<close>

definition wireValue :: "byte list \<Rightarrow> int" where
  "wireValue bytes = foldr (\<lambda>b acc. uint b + 256 * acc) bytes 0"

definition decodeTriple :: "byte list \<Rightarrow> Triple" where
  "decodeTriple t =
     Triple (Gfp (wireValue (slice t 0 16)))
            (Gfp (wireValue (slice t 16 32)))
            (Gfp (wireValue (slice t 32 48)))"

definition tripleOf :: "byte list \<Rightarrow> nat \<Rightarrow> Triple" where
  "tripleOf buffer i = decodeTriple (slice buffer (i * 48) ((i + 1) * 48))"

definition sumTriples :: "Triple list \<Rightarrow> Triple" where
  "sumTriples ts =
     Triple (Gfp (sum_list (map (\<lambda>t. val (triple_a t)) ts) mod GFP_PRIME))
            (Gfp (sum_list (map (\<lambda>t. val (triple_b t)) ts) mod GFP_PRIME))
            (Gfp (sum_list (map (\<lambda>t. val (triple_c t)) ts) mod GFP_PRIME))"

definition combinedSpec :: "byte list list \<Rightarrow> nat \<Rightarrow> Triple" where
  "combinedSpec buffers i = sumTriples (map (\<lambda>buffer. tripleOf buffer i) buffers)"

definition relationHolds :: "Triple \<Rightarrow> bool" where
  "relationHolds t =
     ((val (triple_a t) * val (triple_b t) * R_INVERSE) mod GFP_PRIME = val (triple_c t))"

text \<open>Every 16-byte group of the triple is a value that \<open>Gfp.fromSpdz\<close> accepts.\<close>

definition inField :: "Triple \<Rightarrow> bool" where
  "inField t =
     (val (triple_a t) \<le> GFP_PRIME \<and> val (triple_b t) \<le> GFP_PRIME \<and> val (triple_c t) \<le> GFP_PRIME)"

section \<open>utility/listComparison.js\<close>

text \<open>
  What the callback of the \<open>reduce\<close> in \<open>listComparison\<close> returns, and so what it is
  handed as \<open>a\<close> in the next round: an element of the list, \<open>NaN\<close> or \<open>true\<close>.
\<close>

datatype 'a reduced = Elem 'a | NaN | JSTrue

text \<open>\<open>reduce\<close> with no initial value on a list of at least two elements, index passed.\<close>

fun reduceIndexed :: "('b \<Rightarrow> 'a \<Rightarrow> nat \<Rightarrow> 'b) \<Rightarrow> 'b \<Rightarrow> nat \<Rightarrow> 'a list \<Rightarrow> 'b" where
  "reduceIndexed f acc index [] = acc"
| "reduceIndexed f acc index (b # bs) = reduceIndexed f (f acc b index) (Suc index) bs"

text \<open>\<open>!!\<close>: \<open>truthy\<close> says which elements are truthy; \<open>NaN\<close> is falsy.\<close>

fun toBoolean :: "('a \<Rightarrow> bool) \<Rightarrow> 'a reduced \<Rightarrow> bool" where
  "toBoolean truthy (Elem x) = truthy x"
| "toBoolean truthy NaN = False"
| "toBoolean truthy JSTrue = True"

definition listComparison :: "('a \<Rightarrow> bool) \<Rightarrow> 'a list \<Rightarrow> ('a reduced \<Rightarrow> 'a \<Rightarrow> bool) \<Rightarrow> bool" where
  "listComparison truthy list compare =
     (if length list \<le> 1 then True
      else toBoolean truthy
             (reduceIndexed
                (\<lambda>a b index.
                   if compare a b then (if index = length list - 1 then JSTrue else Elem b)
                   else NaN)
                (Elem (hd list)) 1 (tl list)))"

section \<open>socket_api/transform.js: flattenResponseMessage\<close>

text \<open>
  A response message of one proxy: an object with a string \<open>eventType\<close>, a boolean
  \<open>status\<close> and further fields (\<open>url\<close>, \<open>msg\<close>, ...) in the record's extension.
\<close>

record message =
  eventType :: string
  status :: bool

datatype 'm flattened = Flattened (flat_eventType: string) (flat_status: bool) (flat_msg: "'m list")

definition EVENT_TYPE_ERROR :: string where
  "EVENT_TYPE_ERROR = ''error''"

text \<open>\<open>a.eventType\<close> for what \<open>reduce\<close> hands over: \<open>undefined\<close> on \<open>NaN\<close> and \<open>true\<close>.\<close>

fun eventType_of :: "'a message_scheme reduced \<Rightarrow> string option" where
  "eventType_of (Elem m) = Some (eventType m)"
| "eventType_of NaN = None"
| "eventType_of JSTrue = None"

text \<open>The argument is \<open>None\<close> for \<open>undefined\<close>. Objects are truthy.\<close>

definition flattenResponseMessage ::
    "'a message_scheme list option \<Rightarrow> error + 'a message_scheme flattened" where
  "flattenResponseMessage arg =
     (case arg of
        None \<Rightarrow> Inl AssertionError
      | Some msgList \<Rightarrow>
          if \<not> length msgList > 0 then Inl AssertionError
          else let allSame = listComparison (\<lambda>m. True) msgList
                               (\<lambda>a b. eventType_of a = Some (eventType b));
                   extractStatus = foldl (\<lambda>a b. a \<and> status b) True msgList
               in Inr (Flattened
                         (if allSame then eventType (hd msgList) else EVENT_TYPE_ERROR)
                         (if allSame then extractStatus else False)
                         msgList))"

section \<open>math/numericConversions.js and convertUserInput\<close>

text \<open>
  JavaScript numbers are IEEE 754 binary64 values: the finite doubles as the rationals
  they denote, \<open>NaN\<close> and the two infinities. The two zeros are one value here (they are
  equal under \<open>===\<close> and \<open><=\<close>, both are falsy and both are integers). A rational
  that is not a double stands for no JavaScript value; \<open>toDouble\<close> below maps every
  exact result to the double that JavaScript returns for it.
\<close>

datatype jsnum = Finite rat | NotANumber | PosInfinity | NegInfinity

text \<open>
  The result of an arithmetic operation is its exact result rounded to a double:
  to the nearest multiple of the unit in the last place of its binade, a tie going to
  the even multiple, and to an infinity once the rounded magnitude reaches \<open>2^1024\<close>.
  \<open>exponent2 r\<close> is the binary exponent of \<open>r \<ge> 1\<close>, the \<open>e\<close> with
  \<open>2^e \<le> r < 2^(e + 1)\<close>; below \<open>2^-1022\<close> the unit stays \<open>2^-1074\<close> (subnormals).
\<close>

function exponent2 :: "rat \<Rightarrow> int" where
  "exponent2 r = (if r < 2 then 0 else 1 + exponent2 (r / 2))"
  by pat_completeness auto

termination
proof (relation "measure (\<lambda>r. nat \<lfloor>r\<rfloor>)")
  show "wf (measure (\<lambda>r::rat. nat \<lfloor>r\<rfloor>))"
    by simp
next
  fix r :: rat
  assume "\<not> r < 2"
  then have "r / 2 \<le> r - 1" and two: "2 \<le> \<lfloor>r\<rfloor>"
    by (simp_all add: le_floor_iff)
  then have "\<lfloor>r / 2\<rfloor> \<le> \<lfloor>r - 1\<rfloor>"
    by (intro floor_mono)
  moreover have "\<lfloor>r - 1\<rfloor> = \<lfloor>r\<rfloor> - 1"
    by simp
  ultimately have "nat \<lfloor>r / 2\<rfloor> < nat \<lfloor>r\<rfloor>"
    using two by linarith
  then show "(r / 2, r) \<in> measure (\<lambda>r. nat \<lfloor>r\<rfloor>)"
    by (simp only: in_measure)
qed

declare exponent2.simps [simp del]

definition roundTiesToEven :: "rat \<Rightarrow> int" where
  "roundTiesToEven t =
     (let n = \<lfloor>t\<rfloor>; d = t - of_int n
      in if d < 1 / 2 then n else if 1 / 2 < d then n + 1 else if even n then n else n + 1)"

definition toDouble :: "rat \<Rightarrow> jsnum" where
  "toDouble r =
     (let e = (if \<bar>r\<bar> < 2 powi (- 1022) then - 1022 else exponent2 (\<bar>r\<bar> * 2 ^ 1022) - 1022);
          ulp = 2 powi (e - 52);
          d = of_int (roundTiesToEven (r / ulp)) * ulp
      in if 2 ^ 1024 \<le> d then PosInfinity
         else if d \<le> - (2 ^ 1024) then NegInfinity
         else Finite d)"

text \<open>
  A value of the input list: a number, or a value \<open>Other x\<close> of another type, of which
  the model needs \<open>ToNumber\<close> and \<open>ToBoolean\<close> only.
\<close>

datatype 'o jsval = Number jsnum | Other 'o

record 'o coercions =
  ToNumber :: "'o \<Rightarrow> jsnum"
  ToBoolean :: "'o \<Rightarrow> bool"

fun toNumber :: "'o coercions \<Rightarrow> 'o jsval \<Rightarrow> jsnum" where
  "toNumber co (Number n) = n"
| "toNumber co (Other x) = ToNumber co x"

fun isTruthy :: "'o coercions \<Rightarrow> 'o jsval \<Rightarrow> bool" where
  "isTruthy co (Number (Finite r)) = (r \<noteq> 0)"
| "isTruthy co (Number NotANumber) = False"
| "isTruthy co (Number PosInfinity) = True"
| "isTruthy co (Number NegInfinity) = True"
| "isTruthy co (Other x) = ToBoolean co x"

text \<open>
  \<open>Math.trunc\<close> and \<open>Math.round\<close> (the nearest integer, a tie going up) return their
  exact result: the integer part and the rounding of a double are doubles.
\<close>

fun Math_trunc :: "jsnum \<Rightarrow> jsnum" where
  "Math_trunc (Finite r) = Finite (of_int (if r \<ge> 0 then \<lfloor>r\<rfloor> else \<lceil>r\<rceil>))"
| "Math_trunc n = n"

fun Math_round :: "jsnum \<Rightarrow> jsnum" where
  "Math_round (Finite r) = Finite (of_int \<lfloor>r + 1 / 2\<rfloor>)"
| "Math_round n = n"

text \<open>
  \<open>Math.pow(2, n)\<close> for an integer \<open>n\<close>: the double nearest to \<open>2^n\<close>, which is \<open>2^n\<close>
  itself from \<open>n = -1074\<close> to \<open>n = 1023\<close>, \<open>Infinity\<close> above and \<open>0\<close> below.
\<close>

definition Math_pow2 :: "int \<Rightarrow> jsnum" where
  "Math_pow2 n = toDouble (2 powi n)"

text \<open>The operators \<open>*\<close>, \<open>-\<close> and \<open><=\<close> on numbers.\<close>

fun js_sign :: "jsnum \<Rightarrow> rat" where
  "js_sign (Finite r) = sgn r"
| "js_sign NotANumber = 0"
| "js_sign PosInfinity = 1"
| "js_sign NegInfinity = - 1"

fun js_times :: "jsnum \<Rightarrow> jsnum \<Rightarrow> jsnum" where
  "js_times NotANumber y = NotANumber"
| "js_times x NotANumber = NotANumber"
| "js_times (Finite a) (Finite b) = toDouble (a * b)"
| "js_times x y =
     (if js_sign x * js_sign y = 0 then NotANumber
      else if 0 < js_sign x * js_sign y then PosInfinity
      else NegInfinity)"

fun js_minus :: "jsnum \<Rightarrow> jsnum \<Rightarrow> jsnum" where
  "js_minus NotANumber y = NotANumber"
| "js_minus x NotANumber = NotANumber"
| "js_minus (Finite a) (Finite b) = toDouble (a - b)"
| "js_minus PosInfinity PosInfinity = NotANumber"
| "js_minus NegInfinity NegInfinity = NotANumber"
| "js_minus PosInfinity y = PosInfinity"
| "js_minus NegInfinity y = NegInfinity"
| "js_minus (Finite a) PosInfinity = NegInfinity"
| "js_minus (Finite a) NegInfinity = PosInfinity"

fun js_le :: "jsnum \<Rightarrow> jsnum \<Rightarrow> bool" where
  "js_le NotANumber y = False"
| "js_le x NotANumber = False"
| "js_le (Finite a) (Finite b) = (a \<le> b)"
| "js_le NegInfinity y = True"
| "js_le x PosInfinity = True"
| "js_le x y = False"

text \<open>
  \<open>jsNumberToShiftedInteger\<close>; the two bit lengths are integers, and their difference
  is the exact one.
\<close>

definition jsNumberToShiftedInteger :: "'o coercions \<Rightarrow> 'o jsval \<Rightarrow> int \<Rightarrow> int \<Rightarrow> error + 'o jsval" where
  "jsNumberToShiftedInteger co number fixedPointDecBitLength fixedPointWholeBitLength =
     (if \<not> js_le (Math_trunc (toNumber co number))
               (js_minus (Math_pow2 (fixedPointWholeBitLength - fixedPointDecBitLength)) (Finite 1))
      then Inl AssertionError
      else Inr (Number (Math_trunc (Math_round
                  (js_times (toNumber co number) (Math_pow2 fixedPointDecBitLength))))))"

text \<open>\<open>typeof a === 'number'\<close> and \<open>Number.isInteger(a)\<close> on what \<open>reduce\<close> hands over.\<close>

fun isNumber :: "'o jsval reduced \<Rightarrow> bool" where
  "isNumber (Elem (Number n)) = True"
| "isNumber (Elem (Other x)) = False"
| "isNumber NaN = True"
| "isNumber JSTrue = False"

fun isInteger :: "'o jsval reduced \<Rightarrow> bool" where
  "isInteger (Elem (Number (Finite r))) = (of_int \<lfloor>r\<rfloor> = r)"
| "isInteger x = False"

text \<open>
  \<open>convertUserInput\<close>; the fixed point parameters \<open>f\<close> and \<open>k\<close> are the module
  variables read through \<open>Gfp.fixedPointDecBitLength()\<close> and
  \<open>Gfp.fixedPointWholeBitLength()\<close>.
\<close>

definition convertUserInput :: "'o coercions \<Rightarrow> int \<Rightarrow> int \<Rightarrow> 'o jsval list \<Rightarrow> error + 'o jsval list" where
  "convertUserInput co f k inputList =
     (let validNumbers = listComparison (isTruthy co) inputList
                           (\<lambda>a b. isNumber a \<and> isNumber (Elem b))
      in if \<not> validNumbers then Inl MustBeNumbers
         else let allIntegers = listComparison (isTruthy co) inputList
                                  (\<lambda>a b. isInteger a \<and> isInteger (Elem b))
              in if allIntegers then Inr inputList
                 else mapE (\<lambda>a. jsNumberToShiftedInteger co a f k) inputList)"

section \<open>crypto/index.js: encrypt and decrypt\<close>

text \<open>
  libsodium is a parameter: \<open>crypto_secretbox_easy message nonce key\<close> returns the
  MAC followed by the cipher text, \<open>crypto_secretbox_open_easy\<close> returns \<open>None\<close>
  where the library throws. The nonce that \<open>encrypt\<close> draws from
  \<open>randombytes_buf\<close> is an argument.
\<close>

record sodium =
  crypto_secretbox_easy :: "byte list \<Rightarrow> byte list \<Rightarrow> byte list \<Rightarrow> byte list"
  crypto_secretbox_open_easy :: "byte list \<Rightarrow> byte list \<Rightarrow> byte list \<Rightarrow> byte list option"

definition crypto_box_NONCEBYTES :: nat where
  "crypto_box_NONCEBYTES = 24"

definition crypto_secretbox_MACBYTES :: nat where
  "crypto_secretbox_MACBYTES = 16"

definition encrypt :: "sodium \<Rightarrow> byte list \<Rightarrow> byte list \<Rightarrow> byte list \<Rightarrow> byte list" where
  "encrypt lib nonce encryptionKey message =
     (let macCipher = crypto_secretbox_easy lib message nonce encryptionKey
      in macCipher @ nonce)"

definition decrypt :: "sodium \<Rightarrow> byte list \<Rightarrow> byte list \<Rightarrow> error + byte list" where
  "decrypt lib encryptionKey message =
     (if \<not> length message \<ge> crypto_box_NONCEBYTES + crypto_secretbox_MACBYTES
      then Inl AssertionError
      else let nonceStart = length message - crypto_box_NONCEBYTES
           in case crypto_secretbox_open_easy lib
                     (slice message 0 nonceStart)
                     (drop nonceStart message)
                     encryptionKey of
                None \<Rightarrow> Inl AuthenticationFailed
              | Some clear \<Rightarrow> Inr clear)"

section \<open>Gfp: the Montgomery round trip\<close>

lemma R_INVERSE_value: "R_INVERSE = 116525037434575252203671714714489805504"
  by code_simp

lemma R_times_R_INVERSE: "(R * R_INVERSE) mod GFP_PRIME = 1"
  by (simp add: R_INVERSE_value R_def GFP_PRIME_def INTEGER_LENGTH_BYTES_def)

lemma GFP_NEGATIVE_BOUNDARY_value: "GFP_NEGATIVE_BOUNDARY = 86017558203466581115589478833801232384"
  by (simp add: GFP_NEGATIVE_BOUNDARY_def GFP_PRIME_def)

lemma MIN_NEGATIVE_value: "MIN_NEGATIVE = - 86017558203466581115589478833801232385"
  by (simp add: MIN_NEGATIVE_def GFP_NEGATIVE_BOUNDARY_value GFP_PRIME_def)

lemma GFP_PRIME_pos: "0 < GFP_PRIME"
  by (simp add: GFP_PRIME_def)

lemma R_pos: "0 < R"
  by (simp add: R_def)

lemma R_INVERSE_pos: "0 < R_INVERSE"
  by (simp add: R_INVERSE_value)

lemma smod_GFP_PRIME: "0 \<le> x \<Longrightarrow> x smod GFP_PRIME = x mod GFP_PRIME"
  using GFP_PRIME_pos by (simp add: smod_mod_positive)

lemma smod_GFP_PRIME_range: "0 \<le> x smod GFP_PRIME \<Longrightarrow> x smod GFP_PRIME < GFP_PRIME"
  using smod_int_range [of GFP_PRIME x] GFP_PRIME_pos by auto

lemma toMontgomery_range: "0 \<le> x \<Longrightarrow> 0 \<le> toMontgomery x \<and> toMontgomery x < GFP_PRIME"
  using R_pos GFP_PRIME_pos by (simp add: toMontgomery_def smod_GFP_PRIME)

lemma fromMontgomery_toMontgomery:
  assumes "0 \<le> x" and "x < GFP_PRIME"
  shows "fromMontgomery (toMontgomery x) = x"
proof -
  have m: "toMontgomery x = (x * R) mod GFP_PRIME"
    using assms R_pos by (simp add: toMontgomery_def smod_GFP_PRIME)
  have "0 \<le> (x * R) mod GFP_PRIME * R_INVERSE"
    using GFP_PRIME_pos R_INVERSE_pos by simp
  then have "fromMontgomery (toMontgomery x) = ((x * R) mod GFP_PRIME * R_INVERSE) mod GFP_PRIME"
    by (simp add: fromMontgomery_def m smod_GFP_PRIME)
  also have "\<dots> = (x * (R * R_INVERSE)) mod GFP_PRIME"
    by (simp add: mod_mult_left_eq mult.assoc)
  also have "\<dots> = (x * ((R * R_INVERSE) mod GFP_PRIME)) mod GFP_PRIME"
    by (simp add: mod_mult_right_eq)
  also have "\<dots> = x"
    using assms by (simp add: R_times_R_INVERSE)
  finally show ?thesis .
qed

lemma fromUserInput_value:
  assumes "MIN_NEGATIVE \<le> v" and "v < GFP_NEGATIVE_BOUNDARY"
  shows "fromUserInput v = Inr (Gfp (toMontgomery (if v < 0 then v + GFP_PRIME else v)))"
  using assms by (simp add: fromUserInput_def new_Gfp_def)

lemma toJSInteger_toMontgomery:
  assumes "MIN_NEGATIVE \<le> v" and "v < GFP_NEGATIVE_BOUNDARY"
  shows "toJSInteger (Gfp (toMontgomery (if v < 0 then v + GFP_PRIME else v))) =
           (if MIN_SAFE_INTEGER \<le> v \<and> v \<le> MAX_SAFE_INTEGER then Inr v else Inl (OverflowError v))"
proof -
  define x where "x = (if v < 0 then v + GFP_PRIME else v)"
  have range: "0 \<le> x" "x < GFP_PRIME"
    using assms by (auto simp: x_def MIN_NEGATIVE_value GFP_NEGATIVE_BOUNDARY_value GFP_PRIME_def)
  have remap: "fromGfpMapping x = v"
    using assms
    by (auto simp: x_def fromGfpMapping_def MIN_NEGATIVE_value GFP_NEGATIVE_BOUNDARY_value
        GFP_PRIME_def)
  show ?thesis
    unfolding x_def [symmetric]
    by (simp add: toJSInteger_def fromMontgomery_toMontgomery [OF range] remap)
qed

text \<open>
  C2, as the code has it. For every integer \<open>v\<close> that \<open>Gfp.fromUserInput\<close> accepts
  (\<open>MIN_NEGATIVE \<le> v < GFP_NEGATIVE_BOUNDARY\<close>, which covers every integer from
  \<open>-(P div 2)\<close> up to but not including \<open>P div 2\<close>),
  \<open>Gfp.fromUserInput(v).toJSInteger()\<close> returns exactly \<open>v\<close> when \<open>v\<close> lies between
  \<open>Number.MIN_SAFE_INTEGER\<close> and \<open>Number.MAX_SAFE_INTEGER\<close>, and throws the overflow
  error for every other \<open>v\<close>.
\<close>

theorem toJSInteger_fromUserInput:
  assumes "MIN_NEGATIVE \<le> v" and "v < GFP_NEGATIVE_BOUNDARY"
  shows "andThen (fromUserInput v) toJSInteger =
           (if MIN_SAFE_INTEGER \<le> v \<and> v \<le> MAX_SAFE_INTEGER then Inr v else Inl (OverflowError v))"
  using toJSInteger_toMontgomery [OF assms]
  by (simp add: fromUserInput_value [OF assms] andThen_def)

theorem toJSInteger_fromUserInput_witness:
  "MIN_NEGATIVE \<le> - 60 \<and> - 60 < GFP_NEGATIVE_BOUNDARY \<and>
   andThen (fromUserInput (- 60)) toJSInteger = Inr (- 60)"
  using toJSInteger_fromUserInput [of "- 60"]
  by (simp add: MIN_NEGATIVE_value GFP_NEGATIVE_BOUNDARY_value MIN_SAFE_INTEGER_def
      MAX_SAFE_INTEGER_def)

text \<open>
  C2 as stated fails at \<open>v = 2^53\<close>, which is well inside \<open>-P/2 \<le> v < P/2\<close>:
  \<open>toJSInteger\<close> throws the overflow error there (the repository's own test
  \<open>throws if number too big/small to JS number\<close> expects it).
\<close>

theorem toJSInteger_overflow_counterexample:
  "- (GFP_PRIME div 2) \<le> 9007199254740992 \<and> 9007199254740992 < GFP_PRIME div 2 \<and>
   andThen (fromUserInput 9007199254740992) toJSInteger = Inl (OverflowError 9007199254740992)"
proof -
  have "fromUserInput 9007199254740992 = Inr (Gfp (toMontgomery 9007199254740992))"
    using fromUserInput_value [of 9007199254740992]
    by (simp add: MIN_NEGATIVE_value GFP_NEGATIVE_BOUNDARY_value)
  moreover have "toJSInteger (Gfp (toMontgomery 9007199254740992)) =
      Inl (OverflowError 9007199254740992)"
    using toJSInteger_toMontgomery [of 9007199254740992]
    by (simp add: MIN_NEGATIVE_value GFP_NEGATIVE_BOUNDARY_value MAX_SAFE_INTEGER_def)
  ultimately show ?thesis
    by (simp add: andThen_def GFP_PRIME_def)
qed

section \<open>Gfp: the range of the stored value\<close>

lemma new_Gfp_mapped_range: "new_Gfp v True = Inr g \<Longrightarrow> 0 \<le> val g \<and> val g \<le> GFP_PRIME"
  by (auto simp: new_Gfp_def split: if_splits)

lemma fromUserInput_range:
  assumes "fromUserInput v = Inr g"
  shows "0 \<le> val g \<and> val g < GFP_PRIME"
proof -
  define x where "x = (if v < 0 then v + GFP_PRIME else v)"
  from assms have v: "MIN_NEGATIVE \<le> v" "v < GFP_NEGATIVE_BOUNDARY" and g: "g = Gfp (toMontgomery x)"
    by (auto simp: fromUserInput_def new_Gfp_def x_def split: if_splits)
  from v have "0 \<le> x"
    by (auto simp: x_def MIN_NEGATIVE_value GFP_PRIME_def)
  then show ?thesis
    using toMontgomery_range [of x] g by simp
qed

lemma reduced_mapped_range:
  assumes "new_Gfp (x smod GFP_PRIME) True = Inr g"
  shows "0 \<le> val g \<and> val g < GFP_PRIME"
proof -
  from assms have "0 \<le> x smod GFP_PRIME" and "val g = x smod GFP_PRIME"
    by (auto simp: new_Gfp_def split: if_splits)
  then show ?thesis
    using smod_GFP_PRIME_range [of x] by simp
qed

lemma Gfp_add_range: "Gfp_add x y = Inr g \<Longrightarrow> 0 \<le> val g \<and> val g < GFP_PRIME"
  unfolding Gfp_add_def by (rule reduced_mapped_range)

lemma Gfp_multiply_range: "Gfp_multiply x y = Inr g \<Longrightarrow> 0 \<le> val g \<and> val g < GFP_PRIME"
  unfolding Gfp_multiply_def by (rule reduced_mapped_range)

lemma fromSpdz_range: "fromSpdz hexString = Inr g \<Longrightarrow> 0 \<le> val g \<and> val g \<le> GFP_PRIME"
  by (auto simp: fromSpdz_def dest: new_Gfp_mapped_range split: sum.splits)

text \<open>
  What does hold of every instance: the stored value lies in the closed range
  \<open>[0, P]\<close>, and in \<open>[0, P)\<close> when it comes from \<open>fromUserInput\<close>, \<open>add\<close> or
  \<open>multiply\<close>.
\<close>

lemma produced_range: "produced g \<Longrightarrow> 0 \<le> val g \<and> val g \<le> GFP_PRIME"
proof (induction rule: produced.induct)
  case (from_user v g)
  then show ?case
    using fromUserInput_range [of v g] by simp
next
  case (from_wire hexString g)
  then show ?case
    by (rule fromSpdz_range)
next
  case (by_add x y g)
  then show ?case
    using Gfp_add_range [of x y g] by simp
next
  case (by_multiply x y g)
  then show ?case
    using Gfp_multiply_range [of x y g] by simp
qed

text \<open>
  C3 fails on the wire path: the constructor's test for a mapped value is
  \<open>value.gt(GFP_PRIME)\<close>, so \<open>Gfp.fromSpdz\<close> accepts the hex text of \<open>P\<close> itself and
  stores \<open>P\<close>, which is not below \<open>P\<close>.
\<close>

theorem fromSpdz_accepts_GFP_PRIME:
  "fromSpdz ''816cc21a898665048576fa4690c30001'' = Inr (Gfp GFP_PRIME) \<and>
   \<not> val (Gfp GFP_PRIME) < GFP_PRIME"
  by (simp add: fromSpdz_def bigInt16_def hex_value_def new_Gfp_def GFP_PRIME_def)

section \<open>Gfp: the wire hex text\<close>

lemma less_16_cases:
  assumes "d < (16::nat)"
  shows "d \<in> {0, 1, 2, 3, 4, 5, 6, 7, 8, 9, 10, 11, 12, 13, 14, 15}"
  using assms by (simp add: eval_nat_numeral less_Suc_eq)

lemma hex_value_hex_digit: "d < 16 \<Longrightarrow> hex_value (hex_digit d) = Some d"
  using less_16_cases [of d] by (auto simp: hex_digit_def hex_value_def)

lemma hex_digit_lower: "d < 16 \<Longrightarrow> hex_digit d \<in> set ''0123456789abcdef''"
  unfolding hex_digit_def by (rule nth_mem) simp

lemma hex_digit_zero: "d < 16 \<Longrightarrow> hex_digit d = CHR ''0'' \<Longrightarrow> d = 0"
  using hex_value_hex_digit [of d] by (simp add: hex_value_def)

lemma hex_digit_not_minus: "d < 16 \<Longrightarrow> hex_digit d \<noteq> CHR ''-''"
  using hex_value_hex_digit [of d] by (auto simp: hex_value_def)

lemma parse_digits_append:
  "parse_digits acc (xs @ ys) =
     (case parse_digits acc xs of None \<Rightarrow> None | Some a \<Rightarrow> parse_digits a ys)"
  by (induction xs arbitrary: acc) (auto split: option.splits)

lemma parse_digits_toString16_nat: "parse_digits 0 (toString16_nat n) = Some n"
proof (induction n rule: toString16_nat.induct)
  case (1 n)
  show ?case
  proof (cases "n < 16")
    case True
    then show ?thesis
      by (subst toString16_nat.simps) (simp add: hex_value_hex_digit)
  next
    case False
    with 1 have "parse_digits 0 (toString16_nat (n div 16)) = Some (n div 16)"
      by simp
    with False show ?thesis
      by (subst toString16_nat.simps) (simp add: parse_digits_append hex_value_hex_digit)
  qed
qed

lemma toString16_nat_nonempty: "toString16_nat n \<noteq> []"
  by (subst toString16_nat.simps) simp

lemma length_toString16_nat: "n < 16 ^ k \<Longrightarrow> 0 < k \<Longrightarrow> length (toString16_nat n) \<le> k"
proof (induction n arbitrary: k rule: toString16_nat.induct)
  case (1 n)
  show ?case
  proof (cases "n < 16")
    case True
    with 1 show ?thesis
      by (subst toString16_nat.simps) simp
  next
    case False
    obtain j where k: "k = Suc j"
      using \<open>0 < k\<close> by (cases k) auto
    have j: "0 < j"
      using False \<open>n < 16 ^ k\<close> k by (cases j) auto
    have "n div 16 < 16 ^ j"
      using \<open>n < 16 ^ k\<close> k by (simp add: less_mult_imp_div_less mult.commute)
    with 1 False j have "length (toString16_nat (n div 16)) \<le> j"
      by simp
    with False k show ?thesis
      by (subst toString16_nat.simps) simp
  qed
qed

lemma hd_toString16_nat: "0 < n \<Longrightarrow> hd (toString16_nat n) \<noteq> CHR ''0''"
proof (induction n rule: toString16_nat.induct)
  case (1 n)
  show ?case
  proof (cases "n < 16")
    case True
    with 1 show ?thesis
      by (subst toString16_nat.simps) (auto dest: hex_digit_zero)
  next
    case False
    with 1 have "hd (toString16_nat (n div 16)) \<noteq> CHR ''0''"
      by simp
    with False show ?thesis
      by (subst toString16_nat.simps) (simp add: toString16_nat_nonempty)
  qed
qed

lemma set_toString16_nat: "set (toString16_nat n) \<subseteq> set ''0123456789abcdef''"
proof (induction n rule: toString16_nat.induct)
  case (1 n)
  show ?case
  proof (cases "n < 16")
    case True
    then show ?thesis
      using hex_digit_lower [of n] by (subst toString16_nat.simps) simp
  next
    case False
    with 1 have "set (toString16_nat (n div 16)) \<subseteq> set ''0123456789abcdef''"
      by simp
    with False show ?thesis
      using hex_digit_lower [of "n mod 16"] by (subst toString16_nat.simps) simp
  qed
qed

lemma bigInt16_toString16_nat: "bigInt16 (toString16_nat n) = Inr (int n)"
proof -
  have "hd (toString16_nat n) \<in> set ''0123456789abcdef''"
    using set_toString16_nat [of n] toString16_nat_nonempty [of n] hd_in_set by blast
  then have "hd (toString16_nat n) \<noteq> CHR ''-''"
    by auto
  then show ?thesis
    by (simp add: bigInt16_def parse_digits_toString16_nat)
qed

text \<open>
  C6, as the code has it. For every Gfp whose stored value is in \<open>[0, 2^128)\<close> (every
  instance the library produces), \<open>toNativeHexString\<close> is the big-endian lower-case
  hexadecimal text of the raw stored Montgomery value with no leading zero (the text
  \<open>0\<close> for zero): it reads back as the stored value, has at most 32 characters and is
  not padded. \<open>Gfp.fromUserInput(1234)\<close> yields \<open>6b65f311370d2ce7e9fe8f6c3d67f678\<close>.
\<close>

theorem toNativeHexString_minimal:
  assumes "0 \<le> val g" and "val g < 2 ^ 128"
  shows "bigInt16 (toNativeHexString g) = Inr (val g) \<and>
         set (toNativeHexString g) \<subseteq> set ''0123456789abcdef'' \<and>
         length (toNativeHexString g) \<le> 32 \<and>
         (toNativeHexString g = ''0'' \<or> hd (toNativeHexString g) \<noteq> CHR ''0'') \<and>
         map_sum id toNativeHexString (fromUserInput 1234) = Inr ''6b65f311370d2ce7e9fe8f6c3d67f678''"
proof -
  have s: "toNativeHexString g = toString16_nat (nat (val g))"
    using assms by (simp add: toNativeHexString_def toString16_def)
  have "nat (val g) < 16 ^ 32"
    using assms by (simp add: nat_less_iff)
  then have len: "length (toNativeHexString g) \<le> 32"
    unfolding s by (rule length_toString16_nat) simp
  have lead: "toNativeHexString g = ''0'' \<or> hd (toNativeHexString g) \<noteq> CHR ''0''"
  proof (cases "val g = 0")
    case True
    then show ?thesis
      by (simp add: s toString16_nat.simps hex_digit_def)
  next
    case False
    with assms show ?thesis
      by (simp add: s hd_toString16_nat)
  qed
  have vec: "map_sum id toNativeHexString (fromUserInput 1234) = Inr ''6b65f311370d2ce7e9fe8f6c3d67f678''"
    by (simp add: fromUserInput_def new_Gfp_def MIN_NEGATIVE_def GFP_NEGATIVE_BOUNDARY_def
        GFP_PRIME_def toMontgomery_def R_def INTEGER_LENGTH_BYTES_def toNativeHexString_def
        toString16_def toString16_nat.simps hex_digit_def)
  have rt: "bigInt16 (toNativeHexString g) = Inr (val g)"
    using assms by (simp add: s bigInt16_toString16_nat)
  have chars: "set (toNativeHexString g) \<subseteq> set ''0123456789abcdef''"
    unfolding s by (rule set_toString16_nat)
  from rt chars len lead vec show ?thesis
    by blast
qed

theorem toNativeHexString_minimal_witness:
  "(0::int) \<le> val (Gfp 255) \<and> val (Gfp 255) < 2 ^ 128 \<and>
   bigInt16 (toNativeHexString (Gfp 255)) = Inr 255 \<and> toNativeHexString (Gfp 255) = ''ff''"
  using toNativeHexString_minimal [of "Gfp 255"]
  by (simp add: toNativeHexString_def toString16_def toString16_nat.simps hex_digit_def)

text \<open>
  C6 as stated fails: the text is not zero-padded to 32 characters.
  \<open>Gfp.fromUserInput(0).toNativeHexString()\<close> is \<open>0\<close>, as the repository's test
  \<open>converts 0 to Gfp\<close> expects.
\<close>

theorem toNativeHexString_not_padded_counterexample:
  "fromUserInput 0 = Inr (Gfp 0) \<and> toNativeHexString (Gfp 0) = ''0'' \<and>
   length (toNativeHexString (Gfp 0)) \<noteq> 32"
  by (simp add: fromUserInput_def new_Gfp_def MIN_NEGATIVE_def GFP_NEGATIVE_BOUNDARY_def
        GFP_PRIME_def toMontgomery_def toNativeHexString_def
        toString16_def toString16_nat.simps hex_digit_def)

section \<open>listComparison\<close>

lemma reduceIndexed_NaN:
  assumes "\<And>b. \<not> compare NaN b"
  shows "reduceIndexed (\<lambda>a b index. if compare a b then (if index = n - 1 then JSTrue else Elem b) else NaN)
           NaN i bs = NaN"
  using assms by (induction bs arbitrary: i) simp_all

lemma reduceIndexed_pairs:
  assumes "\<And>b. \<not> compare NaN b" and "bs \<noteq> []" and "i + length bs = n"
  shows "toBoolean truthy
           (reduceIndexed (\<lambda>a b index. if compare a b then (if index = n - 1 then JSTrue else Elem b) else NaN)
              (Elem a) i bs)
         = successively (\<lambda>x y. compare (Elem x) y) (a # bs)"
  using assms(2,3)
proof (induction bs arbitrary: a i)
  case Nil
  then show ?case by simp
next
  case (Cons b bs)
  show ?case
  proof (cases bs)
    case Nil
    with Cons.prems show ?thesis
      by auto
  next
    case (Cons b' bs')
    with Cons.prems have notlast: "i \<noteq> n - 1" and next_index: "Suc i + length bs = n" and "bs \<noteq> []"
      by auto
    show ?thesis
    proof (cases "compare (Elem a) b")
      case True
      with notlast Cons.IH [OF \<open>bs \<noteq> []\<close> next_index, of b] show ?thesis
        by simp
    next
      case False
      then show ?thesis
        using reduceIndexed_NaN [of compare n "Suc i" bs, OF assms(1)] by simp
    qed
  qed
qed

lemma reduceIndexed_all_pass:
  assumes "successively (\<lambda>x y. compare (Elem x) y) (a # bs)" and "bs \<noteq> []" and "i + length bs = n"
  shows "reduceIndexed (\<lambda>a b index. if compare a b then (if index = n - 1 then JSTrue else Elem b) else NaN)
              (Elem a) i bs = JSTrue"
  using assms
proof (induction bs arbitrary: a i)
  case Nil
  then show ?case by simp
next
  case (Cons b bs)
  show ?case
  proof (cases bs)
    case Nil
    with Cons.prems show ?thesis
      by auto
  next
    case (Cons b' bs')
    with Cons.prems have "i \<noteq> n - 1" and "Suc i + length bs = n" and "bs \<noteq> []"
      and "compare (Elem a) b" and "successively (\<lambda>x y. compare (Elem x) y) (b # bs)"
      by auto
    with Cons.IH [of b "Suc i"] show ?thesis
      by simp
  qed
qed

lemma listComparison_all_pass:
  assumes "successively (\<lambda>x y. compare (Elem x) y) list"
  shows "listComparison truthy list compare"
proof (cases list)
  case Nil
  then show ?thesis by (simp add: listComparison_def)
next
  case (Cons a bs)
  show ?thesis
  proof (cases "bs = []")
    case True
    with Cons show ?thesis by (simp add: listComparison_def)
  next
    case False
    with assms Cons
    have "reduceIndexed (\<lambda>acc b index. if compare acc b then (if index = length (a # bs) - 1 then JSTrue else Elem b) else NaN)
              (Elem a) 1 bs = JSTrue"
      by (intro reduceIndexed_all_pass) auto
    with False show ?thesis
      unfolding Cons listComparison_def by (cases bs) auto
  qed
qed

lemma listComparison_iff_pairs:
  assumes "\<And>b. \<not> compare NaN b"
  shows "listComparison truthy list compare = successively (\<lambda>x y. compare (Elem x) y) list"
proof (cases list)
  case Nil
  then show ?thesis by (simp add: listComparison_def)
next
  case (Cons a bs)
  show ?thesis
  proof (cases "bs = []")
    case True
    with Cons show ?thesis by (simp add: listComparison_def)
  next
    case False
    have "1 + length bs = length (a # bs)"
      by simp
    from reduceIndexed_pairs [of compare bs 1 "length (a # bs)" truthy a, OF assms False this] False
    show ?thesis
      unfolding Cons listComparison_def by (cases bs) auto
  qed
qed

lemma listComparison_short: "length list \<le> 1 \<Longrightarrow> listComparison truthy list compare"
  by (simp add: listComparison_def)

text \<open>
  C8 fails on the code. After a failed comparison the callback returns \<open>NaN\<close>, and
  \<open>reduce\<close> hands that \<open>NaN\<close> to \<open>compare\<close> as \<open>a\<close> in the next round; a later
  comparison that accepts \<open>NaN\<close> makes the call return true. With the comparator of
  \<open>convertUserInput\<close>, \<open>(a, b) => typeof a === 'number' && typeof b === 'number'\<close>,
  the list \<open>['a', 1, 2]\<close> passes although the pair \<open>('a', 1)\<close> does not
  (\<open>typeof NaN\<close> is \<open>'number'\<close>).
  The lemmas above state what holds: the call returns true when every adjacent pair
  passes, whatever the last element is (\<open>listComparison_all_pass\<close>), and it returns
  true exactly when every adjacent pair passes if \<open>compare\<close> rejects \<open>NaN\<close> as its first
  argument (\<open>listComparison_iff_pairs\<close>).
\<close>

theorem listComparison_sentinel_reaches_compare:
  "listComparison (isTruthy co) [Other x, Number (Finite 1), Number (Finite 2)]
     (\<lambda>a b. isNumber a \<and> isNumber (Elem b)) = True \<and>
   (isNumber (Elem (Other x)) \<and> isNumber (Elem (Number (Finite 1)))) = False"
  by (simp add: listComparison_def)

section \<open>flattenResponseMessage\<close>

lemma successively_same_key:
  "successively (\<lambda>x y. f x = f y) (a # xs) = list_all (\<lambda>x. f x = f a) xs"
proof (induction xs arbitrary: a)
  case Nil
  show ?case by simp
next
  case (Cons x xs)
  show ?case
  proof (cases "f a = f x")
    case True
    with Cons [of x] show ?thesis by simp
  next
    case False
    then have "f x \<noteq> f a" by simp
    with False show ?thesis by simp
  qed
qed

lemma foldl_conj: "foldl (\<lambda>a b. a \<and> P b) acc xs = (acc \<and> list_all P xs)"
  by (induction xs arbitrary: acc) simp_all

lemma allSame_eventType:
  assumes "msgList \<noteq> []"
  shows "listComparison (\<lambda>m. True) msgList (\<lambda>a b. eventType_of a = Some (eventType b))
         = list_all (\<lambda>m. eventType m = eventType (hd msgList)) msgList"
proof -
  obtain a xs where l: "msgList = a # xs"
    using assms by (cases msgList) auto
  have "listComparison (\<lambda>m. True) msgList (\<lambda>a b. eventType_of a = Some (eventType b))
        = successively (\<lambda>x y. eventType_of (Elem x) = Some (eventType y)) msgList"
    by (rule listComparison_iff_pairs) simp
  then show ?thesis
    by (simp add: l successively_same_key)
qed

text \<open>
  C7. On \<open>undefined\<close> and on the empty list \<open>flattenResponseMessage\<close> fails its
  assertion. On a non-empty list of messages it returns the shared \<open>eventType\<close> and the
  conjunction of all \<open>status\<close> fields when every message has the \<open>eventType\<close> of the
  first, and \<open>EVENT_TYPE.ERROR\<close> with status \<open>false\<close> otherwise; \<open>msg\<close> is the input
  list in both cases.
\<close>

theorem flattenResponseMessage_reconciles:
  "flattenResponseMessage None = Inl AssertionError \<and>
   flattenResponseMessage (Some []) = Inl AssertionError \<and>
   (msgList \<noteq> [] \<longrightarrow>
      flattenResponseMessage (Some msgList) =
        Inr (if list_all (\<lambda>m. eventType m = eventType (hd msgList)) msgList
             then Flattened (eventType (hd msgList)) (list_all status msgList) msgList
             else Flattened EVENT_TYPE_ERROR False msgList))"
  by (simp add: flattenResponseMessage_def allSame_eventType foldl_conj)

theorem flattenResponseMessage_reconciles_witness:
  "flattenResponseMessage
     (Some [\<lparr>eventType = ''connect'', status = True\<rparr>, \<lparr>eventType = ''connect'', status = False\<rparr>]) =
   Inr (Flattened ''connect'' False
     [\<lparr>eventType = ''connect'', status = True\<rparr>, \<lparr>eventType = ''connect'', status = False\<rparr>]) \<and>
   flattenResponseMessage
     (Some [\<lparr>eventType = ''connect'', status = True\<rparr>, \<lparr>eventType = ''disconnect'', status = True\<rparr>,
            \<lparr>eventType = ''connect'', status = True\<rparr>]) =
   Inr (Flattened ''error'' False
     [\<lparr>eventType = ''connect'', status = True\<rparr>, \<lparr>eventType = ''disconnect'', status = True\<rparr>,
      \<lparr>eventType = ''connect'', status = True\<rparr>])"
proof -
  have agree: "flattenResponseMessage
     (Some [\<lparr>eventType = ''connect'', status = True\<rparr>, \<lparr>eventType = ''connect'', status = False\<rparr>]) =
   Inr (Flattened ''connect'' False
     [\<lparr>eventType = ''connect'', status = True\<rparr>, \<lparr>eventType = ''connect'', status = False\<rparr>])"
    using flattenResponseMessage_reconciles
      [of "[\<lparr>eventType = ''connect'', status = True\<rparr>, \<lparr>eventType = ''connect'', status = False\<rparr>]"]
    by auto
  have differ: "flattenResponseMessage
     (Some [\<lparr>eventType = ''connect'', status = True\<rparr>, \<lparr>eventType = ''disconnect'', status = True\<rparr>,
            \<lparr>eventType = ''connect'', status = True\<rparr>]) =
   Inr (Flattened ''error'' False
     [\<lparr>eventType = ''connect'', status = True\<rparr>, \<lparr>eventType = ''disconnect'', status = True\<rparr>,
      \<lparr>eventType = ''connect'', status = True\<rparr>])"
    using flattenResponseMessage_reconciles
      [of "[\<lparr>eventType = ''connect'', status = True\<rparr>, \<lparr>eventType = ''disconnect'', status = True\<rparr>,
            \<lparr>eventType = ''connect'', status = True\<rparr>]"]
    by (auto simp: EVENT_TYPE_ERROR_def)
  from agree differ show ?thesis
    by (rule conjI)
qed

section \<open>Rounding to a double\<close>

lemma pow2_add_1: "(2::rat) powi (n + 1) = 2 * 2 powi n"
  by (simp add: power_int_add_1')

lemma pow2_add: "(2::rat) powi (a + b) = 2 powi a * 2 powi b"
  by (rule power_int_add) simp

lemma pow2_less_cancel:
  assumes "(2::rat) powi a < 2 powi b"
  shows "a < b"
proof (rule ccontr)
  assume "\<not> a < b"
  then have "b \<le> a"
    by simp
  then have "(2::rat) powi b \<le> 2 powi a"
    by (rule power_int_increasing) simp
  with assms show False
    by simp
qed

lemma exponent2_bounds:
  "1 \<le> r \<Longrightarrow> 2 powi exponent2 r \<le> r \<and> r < 2 powi (exponent2 r + 1)"
proof (induction r rule: exponent2.induct)
  case (1 r)
  show ?case
  proof (cases "r < 2")
    case True
    with 1 show ?thesis
      by (simp add: exponent2.simps [of r])
  next
    case False
    then have "1 \<le> r / 2"
      by simp
    with 1 False have IH: "2 powi exponent2 (r / 2) \<le> r / 2 \<and> r / 2 < 2 powi (exponent2 (r / 2) + 1)"
      by simp
    have e: "exponent2 r = exponent2 (r / 2) + 1"
      using False by (simp add: exponent2.simps [of r])
    have "(2::rat) powi (exponent2 (r / 2) + 1) = 2 * 2 powi exponent2 (r / 2)"
      "(2::rat) powi (exponent2 (r / 2) + 1 + 1) = 2 * 2 powi (exponent2 (r / 2) + 1)"
      by (rule pow2_add_1)+
    with IH show ?thesis
      unfolding e by linarith
  qed
qed

lemma exponent2_unique:
  assumes "2 powi E \<le> r" and "r < 2 powi (E + 1)" and "0 \<le> E"
  shows "exponent2 r = E"
proof -
  have "(2::rat) powi 0 \<le> 2 powi E"
    using assms(3) by (rule power_int_increasing) simp
  with assms(1) have "1 \<le> r"
    by simp
  from exponent2_bounds [OF this]
  have b: "2 powi exponent2 r \<le> r" "r < 2 powi (exponent2 r + 1)"
    by simp_all
  from b(1) assms(2) have "(2::rat) powi exponent2 r < 2 powi (E + 1)"
    by simp
  then have "exponent2 r < E + 1"
    by (rule pow2_less_cancel)
  moreover from assms(1) b(2) have "(2::rat) powi E < 2 powi (exponent2 r + 1)"
    by simp
  then have "E < exponent2 r + 1"
    by (rule pow2_less_cancel)
  ultimately show ?thesis
    by simp
qed

lemma roundTiesToEven_of_int: "roundTiesToEven (of_int n) = n"
  by (simp add: roundTiesToEven_def)

text \<open>
  The doubles are fixed by the rounding: a rational \<open>m * 2^j\<close> with \<open>|m| < 2^53\<close> and
  \<open>-1074 \<le> j \<le> 971\<close> is a double, and rounding returns it.
\<close>

lemma toDouble_exact:
  assumes m: "\<bar>m\<bar> < 2 ^ 53" and lo: "- 1074 \<le> j" and hi: "j \<le> 971"
  shows "toDouble (of_int m * 2 powi j) = Finite (of_int m * 2 powi j)"
proof -
  define r :: rat where "r = of_int m * 2 powi j"
  define e where "e = (if \<bar>r\<bar> < 2 powi (- 1022) then - 1022 else exponent2 (\<bar>r\<bar> * 2 ^ 1022) - 1022)"
  have absm: "\<bar>rat_of_int m\<bar> < 2 ^ 53"
    using m by (metis of_int_abs of_int_less_iff of_int_numeral of_int_power)
  have absr: "\<bar>r\<bar> = \<bar>of_int m\<bar> * 2 powi j"
    by (simp add: r_def abs_mult)
  have ulp: "e - 52 \<le> j"
  proof (cases "\<bar>r\<bar> < 2 powi (- 1022)")
    case True
    then show ?thesis
      using lo by (simp add: e_def)
  next
    case False
    define s where "s = \<bar>r\<bar> * 2 ^ 1022"
    have unit: "(2::rat) powi (- 1022) * 2 ^ 1022 = 1"
      by (simp add: power_int_minus)
    from False have "2 powi (- 1022) * 2 ^ 1022 \<le> s"
      unfolding s_def by (intro mult_right_mono) simp_all
    then have "1 \<le> s"
      by (simp only: unit)
    then have low: "2 powi exponent2 s \<le> s"
      using exponent2_bounds by blast
    have "(2::rat) ^ 1022 = 2 powi 1022"
      by simp
    then have "s = \<bar>of_int m\<bar> * (2 powi j * 2 powi 1022)"
      by (simp add: s_def absr)
    also have "\<dots> = \<bar>of_int m\<bar> * 2 powi (j + 1022)"
      by (simp only: pow2_add)
    also have "\<dots> < 2 ^ 53 * 2 powi (j + 1022)"
      using absm by (intro mult_strict_right_mono) simp_all
    also have "\<dots> = 2 powi 53 * 2 powi (j + 1022)"
      by simp
    also have "\<dots> = 2 powi (53 + (j + 1022))"
      by (rule pow2_add [symmetric])
    finally have "(2::rat) powi exponent2 s < 2 powi (53 + (j + 1022))"
      using low by simp
    then have "exponent2 s < 53 + (j + 1022)"
      by (rule pow2_less_cancel)
    with False show ?thesis
      by (simp add: e_def s_def)
  qed
  define n where "n = nat (j - (e - 52))"
  have "j = (e - 52) + int n"
    using ulp by (simp add: n_def)
  then have "(2::rat) powi j = 2 powi (e - 52) * 2 powi (int n)"
    by (simp only: pow2_add)
  then have split: "(2::rat) powi j = 2 powi (e - 52) * 2 ^ n"
    by simp
  have quot: "r / 2 powi (e - 52) = of_int (m * 2 ^ n)"
    by (simp add: r_def split)
  have rounded: "of_int (roundTiesToEven (r / 2 powi (e - 52))) * 2 powi (e - 52) = r"
    unfolding quot roundTiesToEven_of_int by (simp add: r_def split)
  have "(2::rat) powi j \<le> 2 powi 971"
    using hi by (intro power_int_increasing) simp_all
  then have "\<bar>r\<bar> \<le> \<bar>of_int m\<bar> * 2 powi 971"
    unfolding absr by (intro mult_left_mono) simp_all
  also have "\<dots> < 2 ^ 53 * 2 powi 971"
    using absm by (intro mult_strict_right_mono) simp_all
  also have "\<dots> = 2 ^ 1024"
    by (simp flip: power_add)
  finally have range: "\<bar>r\<bar> < 2 ^ 1024" .
  have "toDouble r = Finite r"
    unfolding toDouble_def Let_def e_def [symmetric] rounded using range by auto
  then show ?thesis
    by (simp only: r_def)
qed

lemma toDouble_of_int: "\<bar>m\<bar> < 2 ^ 53 \<Longrightarrow> toDouble (of_int m) = Finite (of_int m)"
  using toDouble_exact [of m 0] by simp

text \<open>
  In the binade of \<open>2^e\<close> the rounding is to multiples of \<open>2^(e - 52)\<close>.
\<close>

lemma toDouble_normal:
  assumes "2 powi e \<le> \<bar>r\<bar>" and "\<bar>r\<bar> < 2 powi (e + 1)" and "- 1022 \<le> e"
  shows "toDouble r =
           (let d = of_int (roundTiesToEven (r / 2 powi (e - 52))) * 2 powi (e - 52)
            in if 2 ^ 1024 \<le> d then PosInfinity
               else if d \<le> - (2 ^ 1024) then NegInfinity
               else Finite d)"
proof -
  have "(2::rat) powi (- 1022) \<le> 2 powi e"
    using assms(3) by (rule power_int_increasing) simp
  with assms(1) have normal: "\<not> \<bar>r\<bar> < 2 powi (- 1022)"
    by simp
  have scale: "(2::rat) ^ 1022 = 2 powi 1022"
    by simp
  have "2 powi e * 2 powi 1022 \<le> \<bar>r\<bar> * 2 powi 1022"
    using assms(1) by (intro mult_right_mono) simp_all
  then have low: "2 powi (e + 1022) \<le> \<bar>r\<bar> * 2 ^ 1022"
    by (simp only: pow2_add scale)
  have "\<bar>r\<bar> * 2 powi 1022 < 2 powi (e + 1) * 2 powi 1022"
    using assms(2) by (intro mult_strict_right_mono) simp_all
  also have "\<dots> = 2 powi (e + 1022 + 1)"
    by (simp only: pow2_add [symmetric]) (simp add: add.commute add.left_commute)
  finally have high: "\<bar>r\<bar> * 2 ^ 1022 < 2 powi (e + 1022 + 1)"
    by (simp only: scale)
  have "exponent2 (\<bar>r\<bar> * 2 ^ 1022) = e + 1022"
    using low high by (rule exponent2_unique) (use assms(3) in simp)
  then show ?thesis
    using normal by (simp add: toDouble_def Let_def)
qed

text \<open>
  Two roundings that change the result: \<open>2^54 - 1\<close> has 54 bits and rounds up to \<open>2^54\<close>,
  and \<open>-2^1043\<close> is beyond the doubles.
\<close>

lemma toDouble_rounds:
  "toDouble (2 ^ 54 - 1) = Finite (2 ^ 54) \<and> toDouble (- (2 ^ 1043)) = NegInfinity"
proof -
  have fl: "\<lfloor>(18014398509481983::rat) / 2\<rfloor> = 9007199254740991"
    by (simp add: floor_eq_iff)
  have "toDouble (2 ^ 54 - 1) = Finite (2 ^ 54)"
    using toDouble_normal [of 53 "2 ^ 54 - 1"] fl
    by (simp add: roundTiesToEven_def Let_def)
  moreover have "toDouble (- (2 ^ 1043)) = NegInfinity"
    using toDouble_normal [of 1043 "- (2 ^ 1043)"]
    by (simp add: roundTiesToEven_def Let_def)
  ultimately show ?thesis
    by simp
qed

lemma Math_pow2_exact:
  assumes "- 1074 \<le> n" and "n \<le> 1023"
  shows "Math_pow2 n = Finite (2 powi n)"
proof (cases "n \<le> 971")
  case True
  with assms show ?thesis
    using toDouble_exact [of 1 n] by (simp add: Math_pow2_def)
next
  case False
  define i where "i = nat (n - 971)"
  have "i \<le> 52"
    using assms False by (simp add: i_def)
  then have "(2::int) ^ i \<le> 2 ^ 52"
    by (intro power_increasing) simp_all
  then have small: "\<bar>(2::int) ^ i\<bar> < 2 ^ 53"
    by simp
  have "n = int i + 971"
    using False by (simp add: i_def)
  then have "(2::rat) powi n = 2 powi (int i) * 2 powi 971"
    by (simp only: pow2_add)
  then have "(2::rat) powi n = of_int (2 ^ i) * 2 powi 971"
    by simp
  then show ?thesis
    using toDouble_exact [OF small, of 971] by (simp add: Math_pow2_def)
qed

section \<open>convertUserInput\<close>

lemma successively_both:
  "2 \<le> length xs \<Longrightarrow> successively (\<lambda>x y. P x \<and> P y) xs = list_all P xs"
proof (induction xs rule: induct_list012)
  case 1
  then show ?case by simp
next
  case (2 x)
  then show ?case by simp
next
  case (3 x y zs)
  show ?case
  proof (cases zs)
    case Nil
    then show ?thesis by auto
  next
    case (Cons z zs')
    with 3 have "successively (\<lambda>x y. P x \<and> P y) (y # zs) = list_all P (y # zs)"
      by simp
    then show ?thesis
      by auto
  qed
qed

lemma convertUserInput_numbers:
  assumes "list_all (\<lambda>v. isNumber (Elem v)) inputList"
    and "2 \<le> length inputList \<or> list_all (\<lambda>v. isInteger (Elem v)) inputList"
  shows "convertUserInput co f k inputList =
           (if list_all (\<lambda>v. isInteger (Elem v)) inputList then Inr inputList
            else mapE (\<lambda>a. jsNumberToShiftedInteger co a f k) inputList)"
proof (cases "2 \<le> length inputList")
  case True
  have "successively (\<lambda>x y. isNumber (Elem x) \<and> isNumber (Elem y)) inputList"
    using True assms(1) by (simp add: successively_both)
  then have valid: "listComparison (isTruthy co) inputList (\<lambda>a b. isNumber a \<and> isNumber (Elem b))"
    by (rule listComparison_all_pass)
  have "listComparison (isTruthy co) inputList (\<lambda>a b. isInteger a \<and> isInteger (Elem b))
        = successively (\<lambda>x y. isInteger (Elem x) \<and> isInteger (Elem y)) inputList"
    by (rule listComparison_iff_pairs) simp
  also have "\<dots> = list_all (\<lambda>v. isInteger (Elem v)) inputList"
    using True by (rule successively_both)
  finally show ?thesis
    using valid by (simp add: convertUserInput_def)
next
  case False
  then have "length inputList \<le> 1"
    by simp
  moreover from False assms(2) have "list_all (\<lambda>v. isInteger (Elem v)) inputList"
    by simp
  ultimately show ?thesis
    by (simp add: convertUserInput_def listComparison_def)
qed

lemma floor_half: "\<lfloor>rat_of_int n + 1 / 2\<rfloor> = n"
  by linarith

text \<open>
  Lists of fewer than two elements are returned as they are, whatever they hold:
  \<open>listComparison\<close> answers true for them without calling the comparator. So
  \<open>convertUserInput([1.5])\<close> is \<open>[1.5]\<close>, not its fixed point encoding, and
  \<open>convertUserInput(['foobar'])\<close> does not throw. A longer list whose last element is a
  number passes the number test as well: \<open>['5', 1, 2]\<close> is converted, not rejected
  (\<open>ToNumber('5')\<close> is \<open>5\<close>; \<open>(f, k)\<close> is \<open>(20, 40)\<close>).
\<close>

lemma convertUserInput_single_element:
  "convertUserInput co f k [Number (Finite (3 / 2))] = Inr [Number (Finite (3 / 2))] \<and>
   isInteger (Elem (Number (Finite (3 / 2)))) = False \<and>
   convertUserInput co f k [Other x] = Inr [Other x] \<and>
   isNumber (Elem (Other x)) = False \<and>
   convertUserInput \<lparr>ToNumber = (\<lambda>s. Finite 5), ToBoolean = (\<lambda>s. True)\<rparr> 20 40
     [Other ''5'', Number (Finite 1), Number (Finite 2)] =
   Inr [Number (Finite 5242880), Number (Finite 1048576), Number (Finite 2097152)]"
proof -
  have "\<lfloor>(3::rat) / 2\<rfloor> = 1"
    by (simp add: floor_eq_iff)
  then have single: "convertUserInput co f k [Number (Finite (3 / 2))] = Inr [Number (Finite (3 / 2))] \<and>
      isInteger (Elem (Number (Finite (3 / 2)))) = False \<and>
      convertUserInput co f k [Other x] = Inr [Other x] \<and>
      isNumber (Elem (Other x)) = False"
    by (simp add: convertUserInput_def listComparison_def)
  have fl: "\<lfloor>rat_of_int 5242880 + 1 / 2\<rfloor> = 5242880" "\<lfloor>rat_of_int 1048576 + 1 / 2\<rfloor> = 1048576"
     "\<lfloor>rat_of_int 2097152 + 1 / 2\<rfloor> = 2097152"
    by (rule floor_half)+
  have pow: "Math_pow2 20 = Finite 1048576"
    using Math_pow2_exact [of 20] by simp
  have dbl: "toDouble 1048575 = Finite 1048575" "toDouble 5242880 = Finite 5242880"
     "toDouble 1048576 = Finite 1048576" "toDouble 2097152 = Finite 2097152"
    using toDouble_of_int [of 1048575] toDouble_of_int [of 5242880]
      toDouble_of_int [of 1048576] toDouble_of_int [of 2097152]
    by simp_all
  have "convertUserInput \<lparr>ToNumber = (\<lambda>s. Finite 5), ToBoolean = (\<lambda>s. True)\<rparr> 20 40
       [Other ''5'', Number (Finite 1), Number (Finite 2)] =
     Inr [Number (Finite 5242880), Number (Finite 1048576), Number (Finite 2097152)]"
    using fl by (simp add: convertUserInput_def listComparison_def jsNumberToShiftedInteger_def
        pow dbl)
  with single show ?thesis
    by simp
qed

lemma mapE_all_Inr: "(\<And>x. x \<in> set xs \<Longrightarrow> f x = Inr (g x)) \<Longrightarrow> mapE f xs = Inr (map g xs)"
  by (induction xs) simp_all

lemma mapE_checked:
  "(\<And>x. x \<in> set xs \<Longrightarrow> f x = (if P x then Inr (g x) else Inl e)) \<Longrightarrow>
     mapE f xs = (if list_all P xs then Inr (map g xs) else Inl e)"
  by (induction xs) simp_all

text \<open>
  Where no rounding happens the conversion is the exact one: for a double \<open>m * 2^j\<close>
  (\<open>|m| < 2^53\<close>) whose product with \<open>2^f\<close> neither overflows nor underflows, and
  \<open>0 \<le> k - f \<le> 53\<close>, the assertion compares the integer part with \<open>2^(k-f) - 1\<close> and the
  result is \<open>floor(x * 2^f + 1/2)\<close>.
\<close>

lemma jsNumberToShiftedInteger_exact:
  assumes m: "\<bar>m\<bar> < 2 ^ 53" and prod: "- 1074 \<le> j + f" "j + f \<le> 971"
    and f: "- 1074 \<le> f" "f \<le> 1023" and kf: "0 \<le> k - f" "k - f \<le> 53"
  shows "jsNumberToShiftedInteger co (Number (Finite (of_int m * 2 powi j))) f k =
           (if (if 0 \<le> rat_of_int m * 2 powi j then \<lfloor>rat_of_int m * 2 powi j\<rfloor>
                else \<lceil>rat_of_int m * 2 powi j\<rceil>) \<le> 2 ^ nat (k - f) - 1
            then Inr (Number (Finite (of_int \<lfloor>rat_of_int m * 2 powi j * 2 powi f + 1 / 2\<rfloor>)))
            else Inl AssertionError)"
proof -
  define n where "n = nat (k - f)"
  have "n \<le> 53"
    using kf by (simp add: n_def)
  then have "(2::int) ^ n \<le> 2 ^ 53"
    by (intro power_increasing) simp_all
  moreover have "(0::int) < 2 ^ n"
    by simp
  ultimately have "\<bar>(2::int) ^ n - 1\<bar> < 2 ^ 53"
    by linarith
  then have "toDouble (of_int (2 ^ n - 1)) = Finite (of_int (2 ^ n - 1))"
    by (rule toDouble_of_int)
  then have minus: "toDouble (2 ^ n - 1) = Finite (of_int (2 ^ n - 1))"
    by simp
  have "k - f = int n"
    using kf by (simp add: n_def)
  then have "(2::rat) powi (k - f) = 2 ^ n"
    by simp
  moreover have "Math_pow2 (k - f) = Finite (2 powi (k - f))"
    using kf by (intro Math_pow2_exact) simp_all
  ultimately have bound: "js_minus (Math_pow2 (k - f)) (Finite 1) = Finite (of_int (2 ^ n - 1))"
    by (simp add: minus)
  have "toDouble (of_int m * 2 powi (j + f)) = Finite (of_int m * 2 powi (j + f))"
    using m prod by (rule toDouble_exact)
  moreover have "Math_pow2 f = Finite (2 powi f)"
    using f by (rule Math_pow2_exact)
  ultimately have times: "js_times (Finite (of_int m * 2 powi j)) (Math_pow2 f) =
      Finite (of_int m * 2 powi j * 2 powi f)"
    by (simp add: pow2_add mult.assoc)
  have le: "(rat_of_int a \<le> of_int (2 ^ n - 1)) = (a \<le> 2 ^ n - 1)" for a
    by (simp only: of_int_le_iff)
  show ?thesis
    unfolding jsNumberToShiftedInteger_def n_def [symmetric]
    by (simp add: bound times le del: of_int_diff of_int_power)
qed

text \<open>
  C9, as the code has it by design. For every list of numbers that has two or more
  elements or holds integers only: if every element is an integer the list is returned
  unchanged; otherwise, if every element \<open>x\<close> passes the assertion
  \<open>Math.trunc(x) <= Math.pow(2, k - f) - 1\<close> of \<open>jsNumberToShiftedInteger\<close>, every
  element, the integers included, is replaced by
  \<open>Math.trunc(Math.round(x * Math.pow(2, f)))\<close>, and if some element does not pass it
  the call throws the assertion's error. The bound and the product are the doubles that
  JavaScript computes. (Lists of one number that is not an integer and lists that hold a
  value that is not a number are left out: see above.)
\<close>

theorem convertUserInput_numbers_spec:
  assumes "list_all (\<lambda>v. isNumber (Elem v)) inputList"
    and "2 \<le> length inputList \<or> list_all (\<lambda>v. isInteger (Elem v)) inputList"
  shows "convertUserInput co f k inputList =
           (if list_all (\<lambda>v. isInteger (Elem v)) inputList then Inr inputList
            else if list_all (\<lambda>v. js_le (Math_trunc (toNumber co v))
                                     (js_minus (Math_pow2 (k - f)) (Finite 1))) inputList
            then Inr (map (\<lambda>v. Number (Math_trunc (Math_round (js_times (toNumber co v) (Math_pow2 f)))))
                       inputList)
            else Inl AssertionError)"
proof -
  have "mapE (\<lambda>a. jsNumberToShiftedInteger co a f k) inputList =
          (if list_all (\<lambda>v. js_le (Math_trunc (toNumber co v))
                                  (js_minus (Math_pow2 (k - f)) (Finite 1))) inputList
           then Inr (map (\<lambda>v. Number (Math_trunc (Math_round (js_times (toNumber co v) (Math_pow2 f)))))
                       inputList)
           else Inl AssertionError)"
    by (rule mapE_checked) (simp add: jsNumberToShiftedInteger_def)
  then show ?thesis
    by (simp add: convertUserInput_numbers [OF assms])
qed

theorem convertUserInput_numbers_spec_witness:
  "list_all (\<lambda>v. isNumber (Elem v))
     [Number (Finite 1), Number (Finite 2), Number (Finite (7656119366529843 / 2251799813685248)),
      Number (Finite 4) :: unit jsval] \<and>
   (2::nat) \<le> length [Number (Finite 1), Number (Finite 2),
      Number (Finite (7656119366529843 / 2251799813685248)), Number (Finite 4) :: unit jsval] \<and>
   convertUserInput \<lparr>ToNumber = (\<lambda>u. NotANumber), ToBoolean = (\<lambda>u. True)\<rparr> 10 41
     [Number (Finite 1), Number (Finite 2), Number (Finite (7656119366529843 / 2251799813685248)),
      Number (Finite 4) :: unit jsval] =
   Inr [Number (Finite 1024), Number (Finite 2048), Number (Finite 3482), Number (Finite 4096)] \<and>
   convertUserInput \<lparr>ToNumber = (\<lambda>u. NotANumber), ToBoolean = (\<lambda>u. True)\<rparr> 10 41
     [Number (Finite 1), Number (Finite 2), Number (Finite 3), Number (Finite 4) :: unit jsval] =
   Inr [Number (Finite 1), Number (Finite 2), Number (Finite 3), Number (Finite 4)] \<and>
   convertUserInput \<lparr>ToNumber = (\<lambda>u. NotANumber), ToBoolean = (\<lambda>u. True)\<rparr> 10 41
     [Number (Finite 7) :: unit jsval] = Inr [Number (Finite 7)] \<and>
   convertUserInput \<lparr>ToNumber = (\<lambda>u. NotANumber), ToBoolean = (\<lambda>u. True)\<rparr> 10 41
     ([] :: unit jsval list) = Inr []"
proof -
  have fl: "\<lfloor>(7656119366529843::rat) / 2251799813685248\<rfloor> = 3"
     "\<lfloor>(7656119366529843::rat) / 2199023255552 + 1 / 2\<rfloor> = 3482"
     "\<lfloor>rat_of_int 1024 + 1 / 2\<rfloor> = 1024" "\<lfloor>rat_of_int 2048 + 1 / 2\<rfloor> = 2048"
     "\<lfloor>rat_of_int 4096 + 1 / 2\<rfloor> = 4096"
    by (simp_all add: floor_eq_iff)
  have pow: "Math_pow2 31 = Finite 2147483648" "Math_pow2 10 = Finite 1024"
    using Math_pow2_exact [of 31] Math_pow2_exact [of 10] by simp_all
  have dbl: "toDouble 2147483647 = Finite 2147483647" "toDouble 1024 = Finite 1024"
     "toDouble 2048 = Finite 2048" "toDouble 4096 = Finite 4096"
     "toDouble (7656119366529843 / 2199023255552) = Finite (7656119366529843 / 2199023255552)"
    using toDouble_of_int [of 2147483647] toDouble_of_int [of 1024] toDouble_of_int [of 2048]
      toDouble_of_int [of 4096] toDouble_exact [of 7656119366529843 "- 41"]
    by simp_all
  have fractional: "convertUserInput \<lparr>ToNumber = (\<lambda>u. NotANumber), ToBoolean = (\<lambda>u. True)\<rparr> 10 41
     [Number (Finite 1), Number (Finite 2), Number (Finite (7656119366529843 / 2251799813685248)),
      Number (Finite 4) :: unit jsval] =
   Inr [Number (Finite 1024), Number (Finite 2048), Number (Finite 3482), Number (Finite 4096)]"
    using convertUserInput_numbers_spec
      [of "[Number (Finite 1), Number (Finite 2), Number (Finite (7656119366529843 / 2251799813685248)),
            Number (Finite 4) :: unit jsval]"
        "\<lparr>ToNumber = (\<lambda>u. NotANumber), ToBoolean = (\<lambda>u. True)\<rparr>" 10 41] fl
    by (simp add: pow dbl)
  have integers: "convertUserInput \<lparr>ToNumber = (\<lambda>u. NotANumber), ToBoolean = (\<lambda>u. True)\<rparr> 10 41
     [Number (Finite 1), Number (Finite 2), Number (Finite 3), Number (Finite 4) :: unit jsval] =
   Inr [Number (Finite 1), Number (Finite 2), Number (Finite 3), Number (Finite 4)]"
    using convertUserInput_numbers_spec
      [of "[Number (Finite 1), Number (Finite 2), Number (Finite 3), Number (Finite 4) :: unit jsval]"
        "\<lparr>ToNumber = (\<lambda>u. NotANumber), ToBoolean = (\<lambda>u. True)\<rparr>" 10 41]
    by simp
  have single: "convertUserInput \<lparr>ToNumber = (\<lambda>u. NotANumber), ToBoolean = (\<lambda>u. True)\<rparr> 10 41
     [Number (Finite 7) :: unit jsval] = Inr [Number (Finite 7)]"
    using convertUserInput_numbers_spec
      [of "[Number (Finite 7) :: unit jsval]"
        "\<lparr>ToNumber = (\<lambda>u. NotANumber), ToBoolean = (\<lambda>u. True)\<rparr>" 10 41]
    by simp
  have empty: "convertUserInput \<lparr>ToNumber = (\<lambda>u. NotANumber), ToBoolean = (\<lambda>u. True)\<rparr> 10 41
     ([] :: unit jsval list) = Inr []"
    using convertUserInput_numbers_spec
      [of "[] :: unit jsval list"
        "\<lparr>ToNumber = (\<lambda>u. NotANumber), ToBoolean = (\<lambda>u. True)\<rparr>" 10 41]
    by simp
  from fractional integers single empty show ?thesis
    by simp
qed

text \<open>
  C9 as stated fails on a list of numbers with an element beyond the fixed point range:
  with \<open>(f, k) = (10, 41)\<close>, \<open>convertUserInput([0.5, 2147483648])\<close> throws the assertion
  error (as the repository's test \<open>throws an error if max 32 bit integer exceeded\<close>
  expects of \<open>jsNumberToShiftedInteger\<close>) instead of returning the encoded list.
\<close>

theorem convertUserInput_range_counterexample:
  "list_all (\<lambda>v. isNumber (Elem v)) [Number (Finite (1 / 2)), Number (Finite 2147483648) :: unit jsval] \<and>
   isInteger (Elem (Number (Finite (1 / 2)) :: unit jsval)) = False \<and>
   convertUserInput \<lparr>ToNumber = (\<lambda>u. NotANumber), ToBoolean = (\<lambda>u. True)\<rparr> 10 41
     [Number (Finite (1 / 2)), Number (Finite 2147483648) :: unit jsval] = Inl AssertionError"
proof -
  have fl: "\<lfloor>(1::rat) / 2\<rfloor> = 0" "\<lfloor>(512::rat) + 1 / 2\<rfloor> = 512"
    by (simp_all add: floor_eq_iff)
  have pow: "Math_pow2 31 = Finite 2147483648" "Math_pow2 10 = Finite 1024"
    using Math_pow2_exact [of 31] Math_pow2_exact [of 10] by simp_all
  have dbl: "toDouble 2147483647 = Finite 2147483647" "toDouble 512 = Finite 512"
    using toDouble_of_int [of 2147483647] toDouble_of_int [of 512] by simp_all
  from fl show ?thesis
    by (simp add: convertUserInput_def listComparison_def jsNumberToShiftedInteger_def pow dbl)
qed

text \<open>
  The doubles' rounding shows in the results. With \<open>(f, k) = (20, 40)\<close> the product of
  \<open>-2^1023\<close> and \<open>2^20\<close> overflows: \<open>convertUserInput([0.5, -2^1023])\<close> is
  \<open>[524288, -Infinity]\<close>. With \<open>(f, k) = (10, 64)\<close> the bound \<open>2^54 - 1\<close> of the
  assertion rounds to \<open>2^54\<close>, and \<open>convertUserInput([0.5, 2^54])\<close> is accepted.
\<close>

lemma convertUserInput_rounding:
  "convertUserInput co 20 40 [Number (Finite (1 / 2)), Number (Finite (- (2 ^ 1023)))] =
     Inr [Number (Finite 524288), Number NegInfinity] \<and>
   convertUserInput co 10 64 [Number (Finite (1 / 2)), Number (Finite (2 ^ 54))] =
     Inr [Number (Finite 512), Number (Finite (2 ^ 64))]"
proof -
  have fl: "\<lfloor>(1::rat) / 2\<rfloor> = 0" "\<lfloor>(512::rat) + 1 / 2\<rfloor> = 512"
     "\<lfloor>(524288::rat) + 1 / 2\<rfloor> = 524288"
     "\<lfloor>(18446744073709551616::rat) + 1 / 2\<rfloor> = 18446744073709551616"
    by (simp_all add: floor_eq_iff)
  have pow: "Math_pow2 20 = Finite 1048576" "Math_pow2 10 = Finite 1024"
     "Math_pow2 54 = Finite 18014398509481984"
    using Math_pow2_exact [of 20] Math_pow2_exact [of 10] Math_pow2_exact [of 54] by simp_all
  have dbl: "toDouble 1048575 = Finite 1048575" "toDouble 524288 = Finite 524288"
     "toDouble 512 = Finite 512"
     "toDouble 18446744073709551616 = Finite 18446744073709551616"
    using toDouble_of_int [of 1048575] toDouble_of_int [of 524288] toDouble_of_int [of 512]
      toDouble_exact [of 1 64]
    by simp_all
  have rounds: "toDouble 18014398509481983 = Finite 18014398509481984"
    using toDouble_rounds by simp
  have "toDouble (- (2 ^ 1043)) = NegInfinity"
    using toDouble_rounds by (rule conjunct2)
  moreover have "- ((2::rat) ^ 1023) * 1048576 = - (2 ^ 1043)"
    by simp
  ultimately have overflow: "toDouble (- (2 ^ 1023) * 1048576) = NegInfinity"
    by (simp only:)
  have up: "\<lceil>- ((2::rat) ^ 1023)\<rceil> = - (2 ^ 1023)"
    by (simp add: ceiling_eq_iff)
  have first: "convertUserInput co 20 40 [Number (Finite (1 / 2)), Number (Finite (- (2 ^ 1023)))] =
     Inr [Number (Finite 524288), Number NegInfinity]"
    using fl up overflow
    by (simp add: convertUserInput_def listComparison_def jsNumberToShiftedInteger_def pow dbl)
  have "\<lfloor>(2::rat) ^ 54\<rfloor> = 2 ^ 54"
    by (simp add: floor_eq_iff)
  then have second: "convertUserInput co 10 64 [Number (Finite (1 / 2)), Number (Finite (2 ^ 54))] =
     Inr [Number (Finite 512), Number (Finite (2 ^ 64))]"
    using fl by (simp add: convertUserInput_def listComparison_def jsNumberToShiftedInteger_def
        pow dbl rounds)
  from first second show ?thesis
    by (rule conjI)
qed

section \<open>binaryToArray: when the parties are said to disagree\<close>

lemma foldl_allSame_step_None: "foldl (allSame_step eq) None rest = None"
  by (induction rest) (simp_all add: allSame_step_def)

lemma sameElements_iff:
  assumes "\<And>x y. eq x y = (x = y)" and "length a = length b"
  shows "sameElements eq a b = (a = b)"
  using assms(2) by (induction a b rule: list_induct2) (simp_all add: assms(1))

lemma allSame_step_Some:
  assumes "\<And>x y. eq x y = (x = y)"
  shows "allSame_step eq (Some a) b = (if a \<noteq> [] \<and> b = a then Some a else None)"
proof (cases "length a = length b")
  case True
  then show ?thesis
    using sameElements_iff [of eq a b, OF assms True] by (auto simp: allSame_step_def)
next
  case False
  then show ?thesis
    by (auto simp: allSame_step_def)
qed

lemma foldl_allSame_step:
  assumes "\<And>x y. eq x y = (x = y)"
  shows "(foldl (allSame_step eq) (Some a) rest \<noteq> None) = (rest = [] \<or> (a \<noteq> [] \<and> list_all (\<lambda>b. b = a) rest))"
proof (induction rest)
  case Nil
  show ?case by simp
next
  case (Cons b rest)
  show ?case
  proof (cases "a \<noteq> [] \<and> b = a")
    case True
    with Cons show ?thesis
      by (cases rest) (auto simp: allSame_step_Some [OF assms])
  next
    case False
    then show ?thesis
      by (auto simp: allSame_step_Some [OF assms] foldl_allSame_step_None)
  qed
qed

lemma allSame_iff:
  assumes "\<And>x y. eq x y = (x = y)"
  shows "allSame eq (first # rest) = (rest = [] \<or> (first \<noteq> [] \<and> list_all (\<lambda>b. b = first) rest))"
  unfolding allSame_def using foldl_allSame_step [OF assms, of first rest] by simp

lemma map_filter_empty: "(\<And>x. x \<in> set xs \<Longrightarrow> f x = None) \<Longrightarrow> List.map_filter f xs = []"
  by (induction xs) (simp_all add: List.map_filter_simps)

lemma checkBuffer_ok:
  assumes "intSize \<noteq> 0" and "\<And>b. b \<in> set byteBufferList \<Longrightarrow> length b mod intSize = 0"
  shows "checkBuffer intSize byteBufferList = []"
  unfolding checkBuffer_def
proof (rule map_filter_empty)
  fix x
  assume "x \<in> set (enumerate 0 byteBufferList)"
  then have "fst x < length byteBufferList" and "snd x = byteBufferList ! fst x"
    by (auto simp: in_set_enumerate_eq)
  then have "snd x \<in> set byteBufferList"
    by simp
  with assms show "(case x of (index, byteBuffer) \<Rightarrow>
          if intSize \<noteq> 0 \<and> length byteBuffer mod intSize = 0 then None
          else Some (WrongLength index (length byteBuffer))) = None"
    by (cases x) simp
qed

lemma mapE_Inr: "mapE (\<lambda>x. Inr (g x)) xs = Inr (map g xs)"
  by (induction xs) simp_all

lemma binaryToArray_result:
  assumes "byteBufferList \<noteq> []" and "typeByteLength \<noteq> 0"
    and "\<And>b. b \<in> set byteBufferList \<Longrightarrow> length b mod typeByteLength = 0"
    and "\<And>x y. eq x y = (x = y)"
    and "mapE extract byteBufferList = Inr arrayMatrix"
  shows "binaryToArray byteBufferList typeByteLength extract eq =
           (if tl arrayMatrix = [] \<or>
               (hd arrayMatrix \<noteq> [] \<and> list_all (\<lambda>decoded. decoded = hd arrayMatrix) (tl arrayMatrix))
            then Inr (hd arrayMatrix) else Inl PartiesDisagree)"
proof -
  have "arrayMatrix \<noteq> []"
    using assms(1,5) by (cases byteBufferList) (auto split: sum.splits)
  then obtain first rest where m: "arrayMatrix = first # rest"
    by (cases arrayMatrix) auto
  show ?thesis
    using assms(1) checkBuffer_ok [of typeByteLength byteBufferList, OF assms(2,3)]
    by (simp add: binaryToArray_def andThen_def assms(5) m allSame_iff [OF assms(4)])
qed

lemma binaryToIntArray_result:
  assumes "byteBufferList \<noteq> []" and "\<And>b. b \<in> set byteBufferList \<Longrightarrow> length b mod 4 = 0"
  shows "binaryToIntArray byteBufferList =
           (if tl byteBufferList = [] \<or>
               (extractInt32 (hd byteBufferList) \<noteq> [] \<and>
                list_all (\<lambda>b. extractInt32 b = extractInt32 (hd byteBufferList)) (tl byteBufferList))
            then Inr (extractInt32 (hd byteBufferList)) else Inl PartiesDisagree)"
proof -
  have "binaryToIntArray byteBufferList =
      (if tl (map extractInt32 byteBufferList) = [] \<or>
               (hd (map extractInt32 byteBufferList) \<noteq> [] \<and>
                list_all (\<lambda>decoded. decoded = hd (map extractInt32 byteBufferList)) (tl (map extractInt32 byteBufferList)))
            then Inr (hd (map extractInt32 byteBufferList)) else Inl PartiesDisagree)"
    unfolding binaryToIntArray_def
    by (rule binaryToArray_result) (use assms in \<open>simp_all add: mapE_Inr\<close>)
  then show ?thesis
    using assms(1) by (cases byteBufferList) (simp_all add: list_all_iff)
qed

text \<open>
  C4 fails on the code when every buffer is empty: \<open>allSame\<close> tests
  \<open>a.length && b.length\<close>, which is falsy for the length \<open>0\<close>, so two parties that both
  send no bytes (the same, empty, decoded sequence) get the error
  \<open>Not all parties have sent the same result.\<close>, while one such party gets \<open>[]\<close>.
  \<open>binaryToArray_result\<close> and \<open>binaryToIntArray_result\<close> state what holds of
  buffers that are their own byte sequences: with two or more buffers the error is raised
  exactly when some decoded sequence differs from the first or the first is empty, and
  never with one buffer.
\<close>

theorem binaryToArray_empty_buffers:
  "binaryToIntArray [[], []] = Inl PartiesDisagree \<and>
   binaryToGfpArray [[], []] = Inl PartiesDisagree \<and>
   extractInt32 [] = [] \<and> extractGfp [] = Inr [] \<and>
   binaryToIntArray [[]] = Inr [] \<and> binaryToGfpArray [[]] = Inr []"
  by (simp add: binaryToIntArray_def binaryToGfpArray_def binaryToArray_def checkBuffer_def
      enumerate_eq_zip List.map_filter_simps andThen_def extractGfp.simps allSame_def allSame_step_def)

section \<open>binaryToGfpArray: decoding the wire bytes\<close>

lemma toString16_nat_small: "n < 16 \<Longrightarrow> toString16_nat n = [hex_digit n]"
  by (subst toString16_nat.simps) simp

lemma toString16_nat_byte:
  assumes "16 \<le> n" and "n < 256"
  shows "toString16_nat n = [hex_digit (n div 16), hex_digit (n mod 16)]"
proof -
  have "n div 16 < 16"
    using assms by simp
  then show ?thesis
    using assms by (subst toString16_nat.simps) (simp add: toString16_nat_small)
qed

lemma hex_value_zero: "hex_value CHR ''0'' = Some 0"
  by (simp add: hex_value_def)

lemma parse_padHex_byte:
  assumes "n < 256"
  shows "parse_digits acc (padHex (toString16_nat n)) = Some (256 * acc + n)"
proof (cases "n < 16")
  case True
  then show ?thesis
    by (simp add: toString16_nat_small padHex_def hex_value_zero hex_value_hex_digit)
next
  case False
  then have "n div 16 < 16" and "n mod 16 < 16"
    using assms by simp_all
  with False assms show ?thesis
    by (simp add: toString16_nat_byte padHex_def hex_value_hex_digit)
qed

lemma set_padHex_byte: "set (padHex (toString16_nat n)) \<subseteq> set ''0123456789abcdef''"
  using set_toString16_nat [of n] by (auto simp: padHex_def)

lemma foldl_append_concat: "foldl (\<lambda>h i. h @ f i) h0 xs = h0 @ concat (map f xs)"
  by (induction xs arbitrary: h0) simp_all

lemma binaryToHex_concat:
  "binaryToHex bytes = concat (map (\<lambda>i. padHex (toString16_nat (unat i))) bytes)"
  by (simp add: binaryToHex_def foldl_append_concat)

lemma parse_binaryToHex:
  "parse_digits acc (binaryToHex bytes) = Some (foldl (\<lambda>a b. 256 * a + unat b) acc bytes)"
proof (induction bytes arbitrary: acc)
  case Nil
  show ?case by (simp add: binaryToHex_concat)
next
  case (Cons b bytes)
  have "unat b < 256"
    using unsigned_less [of b] by simp
  with Cons show ?case
    by (simp add: binaryToHex_concat parse_digits_append parse_padHex_byte)
qed

lemma set_binaryToHex: "set (binaryToHex bytes) \<subseteq> set ''0123456789abcdef''"
  unfolding binaryToHex_concat using set_padHex_byte by (induction bytes) auto

lemma bigInt16_binaryToHex:
  "bigInt16 (binaryToHex bytes) = Inr (int (foldl (\<lambda>a b. 256 * a + unat b) 0 bytes))"
proof (cases "binaryToHex bytes = []")
  case True
  then show ?thesis
    using parse_binaryToHex [of 0 bytes] by (simp add: bigInt16_def)
next
  case False
  then have "hd (binaryToHex bytes) \<in> set ''0123456789abcdef''"
    using set_binaryToHex [of bytes] hd_in_set by blast
  then have "hd (binaryToHex bytes) \<noteq> CHR ''-''"
    by auto
  then show ?thesis
    by (simp add: bigInt16_def parse_binaryToHex)
qed

lemma big_endian_rev: "int (foldl (\<lambda>a b. 256 * a + unat b) 0 (rev bytes)) = wireValue bytes"
  by (induction bytes) (simp_all add: wireValue_def)

lemma fromSpdz_wire: "fromSpdz (binaryToHex (rev bytes)) = new_Gfp (wireValue bytes) True"
  by (simp add: fromSpdz_def bigInt16_binaryToHex big_endian_rev)

lemma wireValue_nonneg: "0 \<le> wireValue bytes"
  by (induction bytes) (simp_all add: wireValue_def)

lemma wireValue_zeros: "wireValue (replicate n 0) = 0"
  by (induction n) (simp_all add: wireValue_def)

lemma extractGfp_step:
  "byteBuffer \<noteq> [] \<Longrightarrow>
     extractGfp byteBuffer =
       andThen (new_Gfp (wireValue (take 16 byteBuffer)) True)
         (\<lambda>gfp. andThen (extractGfp (drop 16 byteBuffer)) (\<lambda>gfpArray. Inr (gfp # gfpArray)))"
  by (subst extractGfp.simps) (simp add: fromSpdz_wire INTEGER_LENGTH_BYTES_def)

lemma extractGfp_Nil: "extractGfp [] = Inr []"
  by (subst extractGfp.simps) simp

lemma new_Gfp_wire: "wireValue bytes \<le> GFP_PRIME \<Longrightarrow> new_Gfp (wireValue bytes) True = Inr (Gfp (wireValue bytes))"
  using wireValue_nonneg [of bytes] by (simp add: new_Gfp_def)

lemma extractGfp_triple:
  assumes "length t = 48" and "inField (decodeTriple t)"
  shows "extractGfp t =
     Inr [triple_a (decodeTriple t), triple_b (decodeTriple t), triple_c (decodeTriple t)]"
proof -
  have ne: "t \<noteq> []" "drop 16 t \<noteq> []" "drop 32 t \<noteq> []" and e: "drop 48 t = []"
    using assms(1) by auto
  have "extractGfp (drop 32 t) = Inr [Gfp (wireValue (take 16 (drop 32 t)))]"
    using assms(2) ne(3) e
    by (simp add: extractGfp_step extractGfp_Nil new_Gfp_wire inField_def decodeTriple_def
        slice_def andThen_def)
  then have "extractGfp (drop 16 t) =
      Inr [Gfp (wireValue (take 16 (drop 16 t))), Gfp (wireValue (take 16 (drop 32 t)))]"
    using assms(2) ne(2)
    by (simp add: extractGfp_step new_Gfp_wire inField_def decodeTriple_def slice_def andThen_def)
  then show ?thesis
    using assms(2) ne(1)
    by (simp add: extractGfp_step new_Gfp_wire inField_def decodeTriple_def slice_def andThen_def)
qed

lemma Gfp_equals_iff: "Gfp_equals x y = (x = y)"
  by (cases x; cases y) (simp add: Gfp_equals_def)

lemma new_Triple_decode:
  assumes "length t = 48" and "inField (decodeTriple t)"
  shows "new_Triple t = Inr (decodeTriple t)"
proof -
  have "mapE extractGfp [t] =
      Inr [[triple_a (decodeTriple t), triple_b (decodeTriple t), triple_c (decodeTriple t)]]"
    by (simp add: extractGfp_triple [OF assms])
  then have "binaryToGfpArray [t] =
      Inr [triple_a (decodeTriple t), triple_b (decodeTriple t), triple_c (decodeTriple t)]"
    unfolding binaryToGfpArray_def
    using binaryToArray_result [of "[t]" 16 Gfp_equals extractGfp] assms(1)
    by (simp add: Gfp_equals_iff)
  then show ?thesis
    by (simp add: new_Triple_def andThen_def)
qed

section \<open>binaryToShare: reconstruction and verification\<close>

lemma decodeTriple_nonneg:
  "0 \<le> val (triple_a (decodeTriple t)) \<and> 0 \<le> val (triple_b (decodeTriple t)) \<and>
   0 \<le> val (triple_c (decodeTriple t))"
  by (simp add: decodeTriple_def wireValue_nonneg)

lemma Triple_zero_value: "Triple_zero = Inr (Triple (Gfp 0) (Gfp 0) (Gfp 0))"
proof -
  have "decodeTriple (replicate 48 0) = Triple (Gfp 0) (Gfp 0) (Gfp 0)"
    by (simp add: decodeTriple_def slice_def wireValue_zeros)
  moreover have "inField (Triple (Gfp 0) (Gfp 0) (Gfp 0))"
    by (simp add: inField_def GFP_PRIME_def)
  ultimately show ?thesis
    using new_Triple_decode [of "replicate 48 0"]
    by (simp add: Triple_zero_def INTEGER_LENGTH_BYTES_def)
qed

lemma Gfp_add_nonneg:
  assumes "0 \<le> val x" and "0 \<le> val y"
  shows "Gfp_add x y = Inr (Gfp ((val x + val y) mod GFP_PRIME))"
proof -
  have "0 \<le> val x + val y"
    using assms by simp
  moreover have "0 \<le> (val x + val y) mod GFP_PRIME" "(val x + val y) mod GFP_PRIME < GFP_PRIME"
    using GFP_PRIME_pos by simp_all
  ultimately show ?thesis
    by (simp add: Gfp_add_def smod_GFP_PRIME new_Gfp_def)
qed

lemma Gfp_multiply_nonneg:
  assumes "0 \<le> val x" and "0 \<le> val y"
  shows "Gfp_multiply x y = Inr (Gfp ((val x * val y * R_INVERSE) mod GFP_PRIME))"
proof -
  have "0 \<le> val x * val y * R_INVERSE"
    using assms R_INVERSE_pos by simp
  moreover have "0 \<le> (val x * val y * R_INVERSE) mod GFP_PRIME"
    "(val x * val y * R_INVERSE) mod GFP_PRIME < GFP_PRIME"
    using GFP_PRIME_pos by simp_all
  ultimately show ?thesis
    by (simp add: Gfp_multiply_def smod_GFP_PRIME new_Gfp_def)
qed

lemma Triple_add_nonneg:
  assumes "0 \<le> val (triple_a s) \<and> 0 \<le> val (triple_b s) \<and> 0 \<le> val (triple_c s)"
    and "0 \<le> val (triple_a t) \<and> 0 \<le> val (triple_b t) \<and> 0 \<le> val (triple_c t)"
  shows "Triple_add s t =
     Inr (Triple (Gfp ((val (triple_a s) + val (triple_a t)) mod GFP_PRIME))
                 (Gfp ((val (triple_b s) + val (triple_b t)) mod GFP_PRIME))
                 (Gfp ((val (triple_c s) + val (triple_c t)) mod GFP_PRIME)))"
  using assms by (simp add: Triple_add_def andThen_def Gfp_add_nonneg)

lemma reduceE_Triple_add:
  assumes "list_all (\<lambda>t. 0 \<le> val (triple_a t) \<and> 0 \<le> val (triple_b t) \<and> 0 \<le> val (triple_c t)) ts"
    and "0 \<le> x" and "0 \<le> y" and "0 \<le> z"
  shows "reduceE Triple_add (Triple (Gfp (x mod GFP_PRIME)) (Gfp (y mod GFP_PRIME)) (Gfp (z mod GFP_PRIME))) ts =
     Inr (Triple (Gfp ((x + sum_list (map (\<lambda>t. val (triple_a t)) ts)) mod GFP_PRIME))
                 (Gfp ((y + sum_list (map (\<lambda>t. val (triple_b t)) ts)) mod GFP_PRIME))
                 (Gfp ((z + sum_list (map (\<lambda>t. val (triple_c t)) ts)) mod GFP_PRIME)))"
  using assms
proof (induction ts arbitrary: x y z)
  case Nil
  then show ?case by simp
next
  case (Cons t ts)
  have m: "0 \<le> x mod GFP_PRIME" "0 \<le> y mod GFP_PRIME" "0 \<le> z mod GFP_PRIME"
    using GFP_PRIME_pos by simp_all
  from Cons.prems have t: "0 \<le> val (triple_a t)" "0 \<le> val (triple_b t)" "0 \<le> val (triple_c t)"
    and ts: "list_all (\<lambda>t. 0 \<le> val (triple_a t) \<and> 0 \<le> val (triple_b t) \<and> 0 \<le> val (triple_c t)) ts"
    by simp_all
  have step: "Triple_add (Triple (Gfp (x mod GFP_PRIME)) (Gfp (y mod GFP_PRIME)) (Gfp (z mod GFP_PRIME))) t =
      Inr (Triple (Gfp ((x + val (triple_a t)) mod GFP_PRIME))
                  (Gfp ((y + val (triple_b t)) mod GFP_PRIME))
                  (Gfp ((z + val (triple_c t)) mod GFP_PRIME)))"
    using m t by (simp add: Triple_add_nonneg mod_add_left_eq)
  have "0 \<le> x + val (triple_a t)" "0 \<le> y + val (triple_b t)" "0 \<le> z + val (triple_c t)"
    using Cons.prems t by simp_all
  from Cons.IH [OF ts this] step show ?case
    by (simp add: add.assoc)
qed

lemma reduceE_from_zero:
  assumes "list_all (\<lambda>t. 0 \<le> val (triple_a t) \<and> 0 \<le> val (triple_b t) \<and> 0 \<le> val (triple_c t)) ts"
  shows "reduceE Triple_add (Triple (Gfp 0) (Gfp 0) (Gfp 0)) ts = Inr (sumTriples ts)"
  using reduceE_Triple_add [OF assms, of 0 0 0] by (simp add: sumTriples_def)

lemma length_slice_triple:
  assumes "length buffer = 48 * M" and "i < M"
  shows "length (slice buffer (i * 48) ((i + 1) * 48)) = 48"
proof -
  have "i * 48 + 48 \<le> 48 * M"
    using assms(2) by simp
  then show ?thesis
    using assms(1) by (simp add: slice_def)
qed

lemma combinedTriple_spec:
  assumes "list_all (\<lambda>b. length b = 48 * M) buffers" and "i < M"
    and "list_all (\<lambda>b. inField (tripleOf b i)) buffers"
  shows "combinedTriple buffers i = Inr (combinedSpec buffers i)"
proof -
  have "mapE (\<lambda>byteBuffer. new_Triple (slice byteBuffer (i * TRIPLE_BYTES) ((i + 1) * TRIPLE_BYTES))) buffers
        = Inr (map (\<lambda>b. tripleOf b i) buffers)"
  proof (rule mapE_all_Inr)
    fix b
    assume "b \<in> set buffers"
    with assms have "length b = 48 * M" and "inField (tripleOf b i)"
      by (simp_all add: list_all_iff)
    then show "new_Triple (slice b (i * TRIPLE_BYTES) ((i + 1) * TRIPLE_BYTES)) = Inr (tripleOf b i)"
      using length_slice_triple [of b M i] assms(2)
      by (simp add: TRIPLE_BYTES_def INTEGER_LENGTH_BYTES_def tripleOf_def new_Triple_decode)
  qed
  moreover have "list_all (\<lambda>t. 0 \<le> val (triple_a t) \<and> 0 \<le> val (triple_b t) \<and> 0 \<le> val (triple_c t))
      (map (\<lambda>b. tripleOf b i) buffers)"
    by (simp add: list_all_iff tripleOf_def decodeTriple_nonneg)
  ultimately show ?thesis
    by (simp add: combinedTriple_def andThen_def Triple_zero_value reduceE_from_zero combinedSpec_def)
qed

lemma sumTriples_nonneg:
  "0 \<le> val (triple_a (sumTriples ts)) \<and> 0 \<le> val (triple_b (sumTriples ts)) \<and>
   0 \<le> val (triple_c (sumTriples ts))"
  using GFP_PRIME_pos by (simp add: sumTriples_def)

lemma checkRelation_spec:
  assumes "0 \<le> val (triple_a t)" and "0 \<le> val (triple_b t)"
  shows "checkRelation t = Inr (relationHolds t)"
  using assms by (simp add: checkRelation_def andThen_def Gfp_multiply_nonneg Gfp_equals_def relationHolds_def)

lemma same_length_fold:
  assumes "list_all (\<lambda>b. length b = n) rest" and "length first = n"
  shows "foldl (\<lambda>acc b. case acc of None \<Rightarrow> None
                         | Some a \<Rightarrow> if length a = length b then Some a else None)
           (Some first) rest = Some first"
  using assms by (induction rest) simp_all

lemma map_filter_id_None: "(\<And>x. x \<in> set xs \<Longrightarrow> x = None) \<Longrightarrow> List.map_filter id xs = []"
  by (induction xs) (fastforce simp: List.map_filter_simps split: option.splits)+

lemma checkBufferLength_ok:
  assumes "buffers \<noteq> []" and "0 < M" and "list_all (\<lambda>b. length b = 48 * M) buffers"
  shows "checkBufferLength buffers = Inr []"
proof -
  obtain first rest where b: "buffers = first # rest"
    using assms(1) by (cases buffers) auto
  have same: "foldl (\<lambda>acc b. case acc of None \<Rightarrow> None
                         | Some a \<Rightarrow> if length a = length b then Some a else None)
           (Some first) rest = Some first"
    using assms(3) b by (intro same_length_fold [of "48 * M"]) simp_all
  have "List.map_filter id
          (map (\<lambda>(index, clearValue).
                   if length clearValue > 0 \<and> length clearValue mod TRIPLE_BYTES = 0 then None
                   else Some (WrongTripleLength index (length clearValue)))
                (enumerate 0 buffers)) = []"
  proof (rule map_filter_id_None)
    fix x
    assume "x \<in> set (map (\<lambda>(index, clearValue).
                   if length clearValue > 0 \<and> length clearValue mod TRIPLE_BYTES = 0 then None
                   else Some (WrongTripleLength index (length clearValue)))
                (enumerate 0 buffers))"
    then obtain index clearValue where "(index, clearValue) \<in> set (enumerate 0 buffers)"
      and x: "x = (if length clearValue > 0 \<and> length clearValue mod TRIPLE_BYTES = 0 then None
                   else Some (WrongTripleLength index (length clearValue)))"
      by auto
    then have "index < length buffers" and "clearValue = buffers ! index"
      by (auto simp: in_set_enumerate_eq)
    then have "clearValue \<in> set buffers"
      by simp
    with assms(3) have "length clearValue = 48 * M"
      by (simp add: list_all_iff)
    with assms(2) x show "x = None"
      by (simp add: TRIPLE_BYTES_def INTEGER_LENGTH_BYTES_def)
  qed
  with same show ?thesis
    unfolding checkBufferLength_def b [symmetric] by (simp add: b)
qed

lemma andThen_Inr: "andThen (Inr x) f = f x"
  by (simp add: andThen_def)

lemma andThen_Inl: "andThen (Inl e) f = Inl e"
  by (simp add: andThen_def)

lemma wireValue_one: "wireValue (1 # replicate n 0) = 1"
  using wireValue_zeros [of n] by (simp add: wireValue_def)

text \<open>
  C1, as the code has it. For every non-empty list of buffers that all have the length
  \<open>48 * M\<close> with \<open>M > 0\<close>, and whose 16-byte groups all hold values that
  \<open>Gfp.fromSpdz\<close> accepts (at most the prime), \<open>binaryToShare\<close> slices each buffer into
  its \<open>M\<close> triples, decodes them, sums them field by field over the parties, and returns
  the \<open>M\<close> combined first fields in order if every combined triple satisfies
  \<open>a.multiply(b).equals(c)\<close>; it throws the failed-check error otherwise. So the error is
  thrown if and only if some combined triple fails the relation.
\<close>

theorem binaryToShare_reconstructs:
  assumes "buffers \<noteq> []" and "0 < M"
    and "list_all (\<lambda>b. length b = 48 * M) buffers"
    and "list_all (\<lambda>i. list_all (\<lambda>b. inField (tripleOf b i)) buffers) [0..<M]"
  shows "binaryToShare (Array (map Uint8Array buffers)) =
           (if list_all (\<lambda>i. relationHolds (combinedSpec buffers i)) [0..<M]
            then Inr (map (\<lambda>i. triple_a (combinedSpec buffers i)) [0..<M])
            else Inl TripleCheckFailed)"
proof -
  have elements: "NotUint8Array \<notin> set (map Uint8Array buffers)"
    by auto
  have bytes: "map (bytes_of \<circ> Uint8Array) buffers = buffers"
    by (simp add: comp_def)
  have "length (hd buffers) = 48 * M"
    using assms(1,3) by (cases buffers) simp_all
  then have num: "length (hd buffers) div TRIPLE_BYTES = M"
    by (simp add: TRIPLE_BYTES_def INTEGER_LENGTH_BYTES_def)
  have each: "andThen (combinedTriple buffers i)
                (\<lambda>t. andThen (checkRelation t)
                   (\<lambda>ok. if \<not> ok then Inl TripleCheckFailed else Inr (triple_a t))) =
              (if relationHolds (combinedSpec buffers i) then Inr (triple_a (combinedSpec buffers i))
               else Inl TripleCheckFailed)"
    if "i \<in> set [0..<M]" for i
  proof -
    from that have i: "i < M"
      by simp
    with assms(4) have "list_all (\<lambda>b. inField (tripleOf b i)) buffers"
      by (simp add: list_all_iff)
    then have "combinedTriple buffers i = Inr (combinedSpec buffers i)"
      using assms(3) i by (intro combinedTriple_spec)
    moreover have "checkRelation (combinedSpec buffers i) = Inr (relationHolds (combinedSpec buffers i))"
      unfolding combinedSpec_def using sumTriples_nonneg by (intro checkRelation_spec) simp_all
    ultimately show ?thesis
      by (simp add: andThen_def)
  qed
  have "mapE (\<lambda>i. andThen (combinedTriple buffers i)
                (\<lambda>t. andThen (checkRelation t)
                   (\<lambda>ok. if \<not> ok then Inl TripleCheckFailed else Inr (triple_a t)))) [0..<M] =
        (if list_all (\<lambda>i. relationHolds (combinedSpec buffers i)) [0..<M]
         then Inr (map (\<lambda>i. triple_a (combinedSpec buffers i)) [0..<M])
         else Inl TripleCheckFailed)"
    by (rule mapE_checked) (rule each)
  then show ?thesis
    using checkBufferLength_ok [OF assms(1-3)] elements
    by (simp add: binaryToShare_def bytes num andThen_Inr del: set_map)
qed

theorem binaryToShare_reconstructs_witness:
  "binaryToShare (Array
     [Uint8Array
        [3, 0, 0, 0, 0, 0, 0, 0, 0, 0, 0, 0, 0, 0, 0, 0,
          255, 255, 60, 111, 185, 5, 137, 122, 251, 154, 121, 118, 229, 61, 147, 126,
          3, 0, 0, 0, 0, 0, 0, 0, 0, 0, 0, 0, 0, 0, 0, 0,
          0, 0, 195, 144, 70, 250, 118, 133, 4, 101, 134, 137, 26, 194, 108, 129,
          2, 0, 0, 0, 0, 0, 0, 0, 0, 0, 0, 0, 0, 0, 0, 0,
          1, 0, 0, 0, 0, 0, 0, 0, 0, 0, 0, 0, 0, 0, 0, 0 :: byte],
      Uint8Array
        [4, 0, 0, 0, 0, 0, 0, 0, 0, 0, 0, 0, 0, 0, 0, 0,
          0, 0, 0, 0, 0, 0, 0, 0, 0, 0, 0, 0, 0, 0, 0, 0,
          4, 0, 0, 0, 0, 0, 0, 0, 0, 0, 0, 0, 0, 0, 0, 0,
          0, 0, 61, 111, 185, 5, 137, 122, 251, 154, 121, 118, 229, 61, 147, 126,
          3, 0, 0, 0, 0, 0, 0, 0, 0, 0, 0, 0, 0, 0, 0, 0,
          4, 0, 0, 0, 0, 0, 0, 0, 0, 0, 0, 0, 0, 0, 0, 0 :: byte]]) =
     Inr [Gfp 7, Gfp 168247250514005301232195649764165746687] \<and>
   binaryToShare (Array
     [Uint8Array
        [3, 0, 0, 0, 0, 0, 0, 0, 0, 0, 0, 0, 0, 0, 0, 0,
          255, 255, 60, 111, 185, 5, 137, 122, 251, 154, 121, 118, 229, 61, 147, 126,
          3, 0, 0, 0, 0, 0, 0, 0, 0, 0, 0, 0, 0, 0, 0, 0,
          0, 0, 195, 144, 70, 250, 118, 133, 4, 101, 134, 137, 26, 194, 108, 129,
          2, 0, 0, 0, 0, 0, 0, 0, 0, 0, 0, 0, 0, 0, 0, 0,
          1, 0, 0, 0, 0, 0, 0, 0, 0, 0, 0, 0, 0, 0, 0, 0 :: byte],
      Uint8Array
        [4, 0, 0, 0, 0, 0, 0, 0, 0, 0, 0, 0, 0, 0, 0, 0,
          0, 0, 0, 0, 0, 0, 0, 0, 0, 0, 0, 0, 0, 0, 0, 0,
          4, 0, 0, 0, 0, 0, 0, 0, 0, 0, 0, 0, 0, 0, 0, 0,
          0, 0, 61, 111, 185, 5, 137, 122, 251, 154, 121, 118, 229, 61, 147, 126,
          3, 0, 0, 0, 0, 0, 0, 0, 0, 0, 0, 0, 0, 0, 0, 0,
          5, 0, 0, 0, 0, 0, 0, 0, 0, 0, 0, 0, 0, 0, 0, 0 :: byte]]) =
     Inl TripleCheckFailed"
  (is "binaryToShare (Array [Uint8Array ?p1, Uint8Array ?p2]) = _ \<and>
       binaryToShare (Array [Uint8Array _, Uint8Array ?p3]) = _")
proof -
  have idx: "[0..<2] = [0, Suc 0]"
    by (simp add: upt_rec)
  have t1: "tripleOf ?p1 0 = Triple (Gfp 3) (Gfp 168247250514005301232195649764165746687) (Gfp 3)"
     "tripleOf ?p1 (Suc 0) = Triple (Gfp 172035116406933162231178957667602464768) (Gfp 2) (Gfp 1)"
    by (simp_all add: tripleOf_def decodeTriple_def slice_def wireValue_def)
  have t2: "tripleOf ?p2 0 = Triple (Gfp 4) (Gfp 0) (Gfp 4)"
     "tripleOf ?p2 (Suc 0) = Triple (Gfp 168247250514005301232195649764165746688) (Gfp 3) (Gfp 4)"
    by (simp_all add: tripleOf_def decodeTriple_def slice_def wireValue_def)
  have t3: "tripleOf ?p3 0 = Triple (Gfp 4) (Gfp 0) (Gfp 4)"
     "tripleOf ?p3 (Suc 0) = Triple (Gfp 168247250514005301232195649764165746688) (Gfp 3) (Gfp 5)"
    by (simp_all add: tripleOf_def decodeTriple_def slice_def wireValue_def)
  have hyp: "list_all (\<lambda>i. list_all (\<lambda>b. inField (tripleOf b i)) [?p1, ?p2]) [0..<2]"
    by (simp add: idx t1 t2 inField_def GFP_PRIME_def)
  have hyp': "list_all (\<lambda>i. list_all (\<lambda>b. inField (tripleOf b i)) [?p1, ?p3]) [0..<2]"
    by (simp add: idx t1 t3 inField_def GFP_PRIME_def)
  have c: "combinedSpec [?p1, ?p2] 0 = Triple (Gfp 7) (Gfp 168247250514005301232195649764165746687) (Gfp 7)"
     "combinedSpec [?p1, ?p2] (Suc 0) = Triple (Gfp 168247250514005301232195649764165746687) (Gfp 5) (Gfp 5)"
    using t1 t2 by (simp_all add: combinedSpec_def sumTriples_def GFP_PRIME_def)
  have c': "combinedSpec [?p1, ?p3] 0 = Triple (Gfp 7) (Gfp 168247250514005301232195649764165746687) (Gfp 7)"
     "combinedSpec [?p1, ?p3] (Suc 0) = Triple (Gfp 168247250514005301232195649764165746687) (Gfp 5) (Gfp 6)"
    using t1 t3 by (simp_all add: combinedSpec_def sumTriples_def GFP_PRIME_def)
  from binaryToShare_reconstructs [of "[?p1, ?p2]" 2, OF _ _ _ hyp]
  have passes: "binaryToShare (Array [Uint8Array ?p1, Uint8Array ?p2]) =
      Inr [Gfp 7, Gfp 168247250514005301232195649764165746687]"
    by (simp add: idx c relationHolds_def R_INVERSE_value GFP_PRIME_def)
  from binaryToShare_reconstructs [of "[?p1, ?p3]" 2, OF _ _ _ hyp']
  have fails: "binaryToShare (Array [Uint8Array ?p1, Uint8Array ?p3]) = Inl TripleCheckFailed"
    by (simp add: idx c' relationHolds_def R_INVERSE_value GFP_PRIME_def)
  from passes fails show ?thesis
    by (rule conjI)
qed

text \<open>
  C1 as stated fails on a buffer that holds a value above the prime: 48 bytes \<open>0xff\<close>
  have the right length, and \<open>binaryToShare\<close> neither returns nor throws the failed-check
  error; the Gfp constructor's range error escapes.
\<close>

theorem binaryToShare_out_of_field_counterexample:
  "binaryToShare (Array [Uint8Array (replicate 48 255)]) =
     Inl (FieldSizeError 340282366920938463463374607431768211455)"
proof -
  have "wireValue (replicate n 255) = 256 ^ n - 1" for n
    by (induction n) (simp_all add: wireValue_def)
  from this [of 16] have v: "wireValue (replicate 16 255) = 340282366920938463463374607431768211455"
    by simp
  have "extractGfp (replicate 48 255) = Inl (FieldSizeError 340282366920938463463374607431768211455)"
    by (simp add: extractGfp_step v new_Gfp_def GFP_PRIME_def andThen_def)
  moreover have "checkBuffer 16 [replicate 48 255] = []"
    by (rule checkBuffer_ok) simp_all
  ultimately have "new_Triple (replicate 48 255) = Inl (FieldSizeError 340282366920938463463374607431768211455)"
    by (simp add: new_Triple_def binaryToGfpArray_def binaryToArray_def andThen_def)
  then have "combinedTriple [replicate 48 255] 0 = Inl (FieldSizeError 340282366920938463463374607431768211455)"
    by (simp add: combinedTriple_def slice_def TRIPLE_BYTES_def INTEGER_LENGTH_BYTES_def andThen_def)
  then show ?thesis
    using checkBufferLength_ok [of "[replicate 48 255]" 1]
    by (simp add: binaryToShare_def TRIPLE_BYTES_def INTEGER_LENGTH_BYTES_def andThen_def)
qed

text \<open>
  The triples are decoded and checked in order, and the first error ends the call: in
  a single buffer whose triple 0 is \<open>(1, 1, 0)\<close> and whose triple 1 is 48 bytes
  \<open>0xff\<close>, the failed check of triple 0 is thrown and triple 1 is never decoded.
\<close>

lemma binaryToShare_first_error:
  "binaryToShare (Array [Uint8Array
      (1 # replicate 15 0 @ 1 # replicate 15 0 @ replicate 16 0 @ replicate 48 255)]) =
     Inl TripleCheckFailed"
proof -
  let ?b = "1 # replicate 15 0 @ 1 # replicate 15 0 @ replicate 16 0 @ replicate 48 (255::byte)"
  have idx: "[0..<2] = [0, Suc 0]"
    by (simp add: upt_rec)
  have t: "tripleOf ?b 0 = Triple (Gfp 1) (Gfp 1) (Gfp 0)"
    by (simp add: tripleOf_def decodeTriple_def slice_def wireValue_zeros wireValue_one)
  have "combinedTriple [?b] 0 = Inr (combinedSpec [?b] 0)"
    by (rule combinedTriple_spec [of 2]) (simp_all add: t inField_def GFP_PRIME_def)
  moreover have "combinedSpec [?b] 0 = Triple (Gfp 1) (Gfp 1) (Gfp 0)"
    by (simp add: combinedSpec_def t sumTriples_def GFP_PRIME_def)
  moreover have "checkRelation (Triple (Gfp 1) (Gfp 1) (Gfp 0)) = Inr False"
    by (simp add: checkRelation_spec relationHolds_def R_INVERSE_value GFP_PRIME_def)
  ultimately have first: "andThen (combinedTriple [?b] 0)
       (\<lambda>t. andThen (checkRelation t)
          (\<lambda>ok. if \<not> ok then Inl TripleCheckFailed else Inr (triple_a t))) =
     Inl TripleCheckFailed"
    by (simp add: andThen_def)
  have "checkBufferLength [?b] = Inr []"
    by (rule checkBufferLength_ok [of _ 2]) simp_all
  then show ?thesis
    by (simp add: binaryToShare_def TRIPLE_BYTES_def INTEGER_LENGTH_BYTES_def idx andThen_Inr
        first [unfolded TRIPLE_BYTES_def INTEGER_LENGTH_BYTES_def])
qed

section \<open>binaryToShare on an empty array\<close>

text \<open>
  C10. \<open>binaryToShare([])\<close> passes the Array test and the test of the elements, and
  then never returns normally: \<open>checkBufferLength\<close> reduces the empty list with no
  initial value, which throws the runtime's TypeError, not a validation error that names
  a proxy.
\<close>

theorem binaryToShare_empty_array:
  "checkBufferLength [] = Inl TypeError \<and> binaryToShare (Array []) = Inl TypeError"
  by (simp add: binaryToShare_def checkBufferLength_def andThen_def)

section \<open>encrypt and decrypt: the envelope\<close>

text \<open>
  What the repository's code adds around libsodium, for any library whose box is the
  message plus 16 bytes and any nonce of 24 bytes: the envelope is the box followed by the
  nonce, \<open>decrypt\<close> splits it 24 bytes before its end and hands both parts to
  \<open>crypto_secretbox_open_easy\<close>, whose verdict it returns; with the same key it
  returns the message if the library opens its own box.
\<close>

lemma encrypt_layout:
  assumes "length (crypto_secretbox_easy lib message nonce key) = crypto_secretbox_MACBYTES + length message"
    and "length nonce = crypto_box_NONCEBYTES"
  shows "length (encrypt lib nonce key message) = 16 + length message + 24 \<and>
         drop (16 + length message) (encrypt lib nonce key message) = nonce \<and>
         take (16 + length message) (encrypt lib nonce key message) =
           crypto_secretbox_easy lib message nonce key"
  using assms by (simp add: encrypt_def crypto_secretbox_MACBYTES_def crypto_box_NONCEBYTES_def)

lemma decrypt_encrypt:
  assumes "length (crypto_secretbox_easy lib message nonce key) = crypto_secretbox_MACBYTES + length message"
    and "length nonce = crypto_box_NONCEBYTES"
  shows "decrypt lib key' (encrypt lib nonce key message) =
           (case crypto_secretbox_open_easy lib (crypto_secretbox_easy lib message nonce key) nonce key' of
              None \<Rightarrow> Inl AuthenticationFailed
            | Some clear \<Rightarrow> Inr clear)"
  using assms
  by (simp add: decrypt_def encrypt_def slice_def crypto_secretbox_MACBYTES_def crypto_box_NONCEBYTES_def)

lemma decrypt_encrypt_same_key:
  assumes "length (crypto_secretbox_easy lib message nonce key) = crypto_secretbox_MACBYTES + length message"
    and "length nonce = crypto_box_NONCEBYTES"
    and "crypto_secretbox_open_easy lib (crypto_secretbox_easy lib message nonce key) nonce key = Some message"
  shows "decrypt lib key (encrypt lib nonce key message) = Inr message"
  using assms by (simp add: decrypt_encrypt)

lemma decrypt_encrypt_example:
  "decrypt \<lparr>crypto_secretbox_easy = (\<lambda>m n k. replicate 16 0 @ m),
             crypto_secretbox_open_easy = (\<lambda>c n k. Some (drop 16 c))\<rparr> key
     (encrypt \<lparr>crypto_secretbox_easy = (\<lambda>m n k. replicate 16 0 @ m),
               crypto_secretbox_open_easy = (\<lambda>c n k. Some (drop 16 c))\<rparr>
        (replicate 24 7) key [1, 2, 3]) = Inr [1, 2, 3]"
  by (rule decrypt_encrypt_same_key)
    (simp_all add: crypto_secretbox_MACBYTES_def crypto_box_NONCEBYTES_def)

text \<open>
  That a different key is rejected cannot hold for every key, whatever the library: there
  are more 32-byte keys than 16-byte boxes of the empty message, so for any nonce two
  keys share a box, and each of them opens what the other sealed. The rejection is a
  statement about probabilities, which these definitions do not express.
\<close>

lemma card_byte_lists: "card {xs :: byte list. length xs = n} = 256 ^ n"
  using card_lists_length_eq [of "UNIV :: byte set" n] by (simp add: card_word)

lemma finite_byte_lists: "finite {xs :: byte list. length xs = n}"
  using finite_lists_length_eq [of "UNIV :: byte set" n] by simp

lemma some_other_key_opens:
  assumes box: "\<And>key. length (crypto_secretbox_easy lib [] nonce key) = crypto_secretbox_MACBYTES"
    and opens: "\<And>key. crypto_secretbox_open_easy lib (crypto_secretbox_easy lib [] nonce key) nonce key = Some []"
    and nonce: "length nonce = crypto_box_NONCEBYTES"
  shows "\<exists>key key'. length key = 32 \<and> length key' = 32 \<and> key \<noteq> key' \<and>
           decrypt lib key' (encrypt lib nonce key []) = Inr []"
proof -
  let ?keys = "{key :: byte list. length key = 32}"
  let ?box = "\<lambda>key. crypto_secretbox_easy lib [] nonce key"
  have "?box ` ?keys \<subseteq> {c :: byte list. length c = 16}"
    using box by (auto simp: crypto_secretbox_MACBYTES_def)
  then have "card (?box ` ?keys) \<le> card {c :: byte list. length c = 16}"
    by (rule card_mono [OF finite_byte_lists])
  also have "\<dots> < card ?keys"
    by (simp add: card_byte_lists)
  finally have "\<not> inj_on ?box ?keys"
    by (rule pigeonhole)
  then obtain key key' where k: "length key = 32" "length key' = 32" "key \<noteq> key'"
    and same: "?box key = ?box key'"
    by (auto simp: inj_on_def)
  have "decrypt lib key' (encrypt lib nonce key []) =
          (case crypto_secretbox_open_easy lib (?box key) nonce key' of
             None \<Rightarrow> Inl AuthenticationFailed | Some clear \<Rightarrow> Inr clear)"
    using box [of key] nonce by (intro decrypt_encrypt) simp_all
  also have "\<dots> = Inr []"
    by (simp add: same opens)
  finally show ?thesis
    using k by blast
qed

end
